theory Spec2Isabelle
  imports
    Main
    "HOL-Library.Word"
    "HOL-Library.Multiset"
    "HOL-Library.AList"
    "HOL-Library.Char_ord"
    "HOL-Library.List_Lexorder"
begin

section \<open>Time\<close>

text \<open>
  A Go \<^verbatim>\<open>time.Time\<close> is modelled as an instant in integer nanoseconds since the Unix
  epoch; a \<^verbatim>\<open>time.Duration\<close> is a signed 64-bit count of nanoseconds, so arithmetic on
  durations wraps around. \<^verbatim>\<open>t.Sub(u)\<close> saturates at the largest and smallest duration,
  as the Go library documents.
\<close>

type_synonym Time = int
type_synonym Duration = "64 word"

definition Second :: Duration where
  "Second = 1000000000"

definition Hour :: Duration where
  "Hour = 3600000000000"

definition maxDuration :: Duration where
  "maxDuration = 9223372036854775807"

definition minDuration :: Duration where
  "minDuration = - 9223372036854775808"

definition time_Sub :: "Time \<Rightarrow> Time \<Rightarrow> Duration" where
  "time_Sub t u =
     (let d = t - u in
      if d > 9223372036854775807 then maxDuration
      else if d < - 9223372036854775808 then minDuration
      else word_of_int d)"

text \<open>\<^verbatim>\<open>time.Since(t)\<close> is \<^verbatim>\<open>time.Now().Sub(t)\<close>; the clock reading is an argument.\<close>

definition time_Since :: "Time \<Rightarrow> Time \<Rightarrow> Duration" where
  "time_Since now t = time_Sub now t"

text \<open>\<^verbatim>\<open>time.Until(t)\<close> is \<^verbatim>\<open>t.Sub(time.Now())\<close>.\<close>

definition time_Until :: "Time \<Rightarrow> Time \<Rightarrow> Duration" where
  "time_Until now t = time_Sub t now"

text \<open>The zero \<^verbatim>\<open>time.Time\<close> is January 1 of year 1, 00:00 UTC.\<close>

definition zeroTime :: Time where
  "zeroTime = - 62135596800 * 1000000000"

section \<open>The cost center cache (package cache)\<close>

record Entry =
  ID :: string
  Name :: string
  CachedAt :: Time
  TTLHours :: "64 word"

record cacheData =
  Version :: int
  Entries :: "string \<rightharpoonup> Entry"

record Cache =
  filePath :: string
  ttlHours :: "64 word"
  data :: cacheData

definition DefaultTTLHours :: "64 word" where
  "DefaultTTLHours = 24"

definition zeroEntry :: Entry where
  "zeroEntry = \<lparr>ID = [], Name = [], CachedAt = zeroTime, TTLHours = 0\<rparr>"

text \<open>
  \<^verbatim>\<open>func (e Entry) IsExpired() bool\<close>: the TTL is
  \<^verbatim>\<open>time.Duration(e.TTLHours) * time.Hour\<close>, a 64-bit product, compared (signed) with
  \<^verbatim>\<open>time.Since(e.CachedAt)\<close>.
\<close>

definition IsExpired :: "Entry \<Rightarrow> Time \<Rightarrow> bool" where
  "IsExpired e now =
     (let ttl = TTLHours e * Hour
      in sint ttl < sint (time_Since now (CachedAt e)))"

text \<open>
  \<^verbatim>\<open>func (c *Cache) Get(key string) (Entry, bool)\<close>. The cache is returned next to the
  result, since the method has the cache as a pointer receiver.
\<close>

definition Cache_Get :: "Cache \<Rightarrow> Time \<Rightarrow> string \<Rightarrow> (Entry \<times> bool) \<times> Cache" where
  "Cache_Get c now key =
     (case Entries (data c) key of
        None \<Rightarrow> ((zeroEntry, False), c)
      | Some e \<Rightarrow>
          if IsExpired e now then ((zeroEntry, False), c)
          else ((e, True), c))"

text \<open>
  \<^verbatim>\<open>func (c *Cache) Set(key, id, name string) error\<close>. The entry is stamped with
  \<^verbatim>\<open>time.Now().UTC()\<close> and the cache's TTL. The error is the one of \<^verbatim>\<open>save\<close>, which
  writes the table to disk and leaves the table in memory as it is; the outcome of the
  write is the argument \<open>save\<close>.
\<close>

definition Cache_Set ::
  "(cacheData \<Rightarrow> string option) \<Rightarrow> Cache \<Rightarrow> Time \<Rightarrow> string \<Rightarrow> string \<Rightarrow> string
     \<Rightarrow> string option \<times> Cache" where
  "Cache_Set save c now key id' name =
     (let d = (data c)\<lparr>Entries := (Entries (data c))
                 (key \<mapsto> \<lparr>ID = id', Name = name, CachedAt = now, TTLHours = ttlHours c\<rparr>)\<rparr>
      in (save d, c\<lparr>data := d\<rparr>))"

text \<open>Inputs of the kernel-checked examples for the cache.\<close>

definition longTTLEntry :: Entry where
  "longTTLEntry = \<lparr>ID = ''id-X'', Name = ''Name-X'', CachedAt = 0, TTLHours = 2562048\<rparr>"

definition longTTLCache :: Cache where
  "longTTLCache =
     \<lparr>filePath = ''.cache/cost_centers.json'', ttlHours = DefaultTTLHours,
      data = \<lparr>Version = 1, Entries = [''key'' \<mapsto> longTTLEntry]\<rparr>\<rparr>"

definition emptyCache :: Cache where
  "emptyCache =
     \<lparr>filePath = ''.cache/cost_centers.json'', ttlHours = DefaultTTLHours,
      data = \<lparr>Version = 1, Entries = Map.empty\<rparr>\<rparr>"

section \<open>The call layer (package github, client)\<close>

text \<open>The constants of the client; \<^verbatim>\<open>retryableStatusCodes\<close> is the map of that name.\<close>

definition maxRetries :: nat where
  "maxRetries = 3"

definition retryBackoffBase :: Duration where
  "retryBackoffBase = 1 * Second"

definition rateLimitFallback :: Duration where
  "rateLimitFallback = 60 * Second"

definition retryableStatusCodes :: "int \<Rightarrow> bool" where
  "retryableStatusCodes st = (st = 429 \<or> st = 500 \<or> st = 502 \<or> st = 503 \<or> st = 504)"

text \<open>
  What \<^verbatim>\<open>c.do\<close> returns: an error (with its message), or a response, of which the
  status code, the value of \<^verbatim>\<open>Header.Get("X-RateLimit-Reset")\<close> (empty when the header
  is absent) and the body matter. A body is nil, or a stream of bytes that may break with
  a read error after some of them (\<open>Body bs (Some n)\<close>: after \<open>n\<close> bytes).
\<close>

datatype http_body = NoBody | Body string "nat option"

record http_response =
  StatusCode :: int
  RateLimitReset :: string
  RespBody :: http_body

datatype do_result = DoErr string | DoResp http_response

text \<open>
  Go error values: an \<^verbatim>\<open>*APIError\<close>, a \<^verbatim>\<open>*BudgetsAPIUnavailableError\<close>, any other
  error, and \<^verbatim>\<open>fmt.Errorf("...: %w", err)\<close>, which wraps an error in a message.
\<close>

datatype error =
    APIError int string
  | BudgetsAPIUnavailableError string
  | Err string
  | Wrap string error

text \<open>\<^verbatim>\<open>errors.As(err, &apiErr)\<close> finds the first \<^verbatim>\<open>*APIError\<close> in the chain.\<close>

fun asAPIError :: "error \<Rightarrow> (int \<times> string) option" where
  "asAPIError (APIError st body) = Some (st, body)"
| "asAPIError (Wrap msg e) = asAPIError e"
| "asAPIError (BudgetsAPIUnavailableError msg) = None"
| "asAPIError (Err msg) = None"

text \<open>
  One call of \<open>doJSON\<close> sees the outcomes of its successive calls of \<^verbatim>\<open>c.do\<close>
  (\<open>do_at env i\<close> is the outcome of call number \<open>i\<close>), the clock when it handles
  outcome \<open>i\<close>, and whether a body decodes into the destination. Every
  \<^verbatim>\<open>time.Sleep\<close> is recorded with its reason; the outcome of \<open>doJSON\<close> is what it
  returns, the number of calls of \<^verbatim>\<open>c.do\<close> and the sleeps, in order.
\<close>

datatype sleep = Backoff Duration | RateLimitWait Duration

record http_env =
  do_at :: "nat \<Rightarrow> do_result"
  now_at :: "nat \<Rightarrow> Time"
  decode_ok :: "http_body \<Rightarrow> bool"

record doJSON_outcome =
  ret :: "http_response option \<times> error option"
  calls :: nat
  sleeps :: "sleep list"

text \<open>\<^verbatim>\<open>strings.Contains\<close>, and \<^verbatim>\<open>func isTransient(err error) bool\<close> on the message of the error.\<close>

fun HasPrefix :: "string \<Rightarrow> string \<Rightarrow> bool" where
  "HasPrefix s [] = True"
| "HasPrefix [] (c # cs) = False"
| "HasPrefix (x # xs) (c # cs) = (x = c \<and> HasPrefix xs cs)"

fun Contains :: "string \<Rightarrow> string \<Rightarrow> bool" where
  "Contains [] sub = (sub = [])"
| "Contains (x # xs) sub = (HasPrefix (x # xs) sub \<or> Contains xs sub)"

definition isTransient :: "string \<Rightarrow> bool" where
  "isTransient s =
     list_ex (Contains s)
       [''connection refused'', ''connection reset'', ''i/o timeout'',
        ''TLS handshake timeout'', ''EOF'']"

text \<open>
  \<^verbatim>\<open>func (c *Client) backoff(attempt int, _ *http.Response) time.Duration\<close>, which is
  \<^verbatim>\<open>retryBackoffBase * time.Duration(math.Pow(2, float64(attempt)))\<close>; the power of two is
  exact in floating point for the attempts 0 and 1 at which \<open>doJSON\<close> calls it.
\<close>

definition backoff :: "nat \<Rightarrow> Duration" where
  "backoff attempt = retryBackoffBase * 2 ^ attempt"

text \<open>
  \<^verbatim>\<open>strconv.ParseInt(s, 10, 64)\<close>: an optional sign, then one or more decimal digits and
  nothing else, with a value in the signed 64-bit range.
\<close>

definition isDigit :: "char \<Rightarrow> bool" where
  "isDigit c = ((48::nat) \<le> of_char c \<and> of_char c \<le> (57::nat))"

definition digitsValue :: "string \<Rightarrow> int" where
  "digitsValue ds = foldl (\<lambda>n c. 10 * n + (of_char c - 48)) 0 ds"

definition ParseInt64 :: "string \<Rightarrow> int option" where
  "ParseInt64 s =
     (case s of
        [] \<Rightarrow> None
      | c # cs \<Rightarrow>
          let neg = (c = CHR ''-'');
              ds = (if c = CHR ''+'' \<or> c = CHR ''-'' then cs else s)
          in if ds = [] \<or> \<not> list_all isDigit ds then None
             else let un = digitsValue ds
                  in if \<not> neg \<and> un \<ge> 9223372036854775808 then None
                     else if neg \<and> un > 9223372036854775808 then None
                     else Some (if neg then - un else un))"

text \<open>\<^verbatim>\<open>time.Unix(sec, 0)\<close>\<close>

definition time_Unix :: "int \<Rightarrow> Time" where
  "time_Unix sec = sec * 1000000000"

text \<open>
  \<^verbatim>\<open>func (c *Client) rateLimitWait(resp *http.Response) time.Duration\<close>; the sum
  \<^verbatim>\<open>time.Until(...) + time.Second\<close> is a 64-bit sum.
\<close>

definition rateLimitWait :: "http_response \<Rightarrow> Time \<Rightarrow> Duration" where
  "rateLimitWait resp now =
     (let resetStr = RateLimitReset resp in
      if resetStr = [] then rateLimitFallback
      else case ParseInt64 resetStr of
             None \<Rightarrow> rateLimitFallback
           | Some resetUnix \<Rightarrow>
               let wait = time_Until now (time_Unix resetUnix) + Second
               in if sint wait \<le> 0 then Second else wait)"

text \<open>
  \<^verbatim>\<open>func readBody(resp *http.Response) string\<close>: at most 4096 bytes are read; a read
  error within them gives the fixed message.
\<close>

definition readBody :: "http_response \<Rightarrow> string" where
  "readBody resp =
     (case RespBody resp of
        NoBody \<Rightarrow> []
      | Body bs None \<Rightarrow> take 4096 bs
      | Body bs (Some n) \<Rightarrow>
          if n < 4096 \<and> n < length bs then ''<error reading body>'' else take 4096 bs)"

text \<open>
  \<^verbatim>\<open>func (c *Client) doJSON(method, url string, body any, dest any) (*http.Response, error)\<close>.
  \<open>dest\<close> says whether a destination was given. The loop need not end: a service that
  answers 429 forever keeps it running, and then the value is \<open>None\<close>.
\<close>

partial_function (option) doJSON_loop ::
  "http_env \<Rightarrow> bool \<Rightarrow> nat \<Rightarrow> nat \<Rightarrow> sleep list \<Rightarrow> doJSON_outcome option" where
  "doJSON_loop env dest i attempt sl =
     (if attempt < maxRetries then
        (case do_at env i of
           DoErr err \<Rightarrow>
             if isTransient err \<and> attempt < maxRetries - 1
             then doJSON_loop env dest (i + 1) (attempt + 1) (sl @ [Backoff (backoff attempt)])
             else Some \<lparr>ret = (None, Some (Err err)), calls = i + 1, sleeps = sl\<rparr>
         | DoResp resp \<Rightarrow>
             if 200 \<le> StatusCode resp \<and> StatusCode resp < 300 then
               (if dest \<and> \<not> decode_ok env (RespBody resp)
                then Some \<lparr>ret = (Some resp, Some (Wrap ''decoding response'' (Err ''json''))),
                           calls = i + 1, sleeps = sl\<rparr>
                else Some \<lparr>ret = (Some resp, None), calls = i + 1, sleeps = sl\<rparr>)
             else
               let errBody = readBody resp in
               if StatusCode resp = 429
               then doJSON_loop env dest (i + 1) attempt
                      (sl @ [RateLimitWait (rateLimitWait resp (now_at env i))])
               else if retryableStatusCodes (StatusCode resp) \<and> attempt < maxRetries - 1
               then doJSON_loop env dest (i + 1) (attempt + 1)
                      (sl @ [Backoff (backoff attempt)])
               else Some \<lparr>ret = (Some resp, Some (APIError (StatusCode resp) errBody)),
                          calls = i + 1, sleeps = sl\<rparr>)
      else Some \<lparr>ret = (None, Some (Err ''request failed after 3 retries'')),
                 calls = i, sleeps = sl\<rparr>)"

definition doJSON :: "http_env \<Rightarrow> bool \<Rightarrow> doJSON_outcome option" where
  "doJSON env dest = doJSON_loop env dest 0 0 []"

text \<open>
  Vocabulary for the statements about the retry loop: a 429 outcome; the sleep the loop
  records for outcome \<open>j\<close> when it is a 429; the backoff and the rate-limit sleeps of a
  run; an outcome that the retry budget covers; and what a returned run must satisfy (a
  call after every sleep, backoffs of 1 s and 2 s at most, an error body of at most 4096
  bytes).
\<close>

definition is429 :: "do_result \<Rightarrow> bool" where
  "is429 r = (case r of DoErr _ \<Rightarrow> False | DoResp resp \<Rightarrow> StatusCode resp = 429)"

definition waitAt :: "http_env \<Rightarrow> nat \<Rightarrow> sleep" where
  "waitAt env j =
     (case do_at env j of
        DoErr _ \<Rightarrow> RateLimitWait 0
      | DoResp resp \<Rightarrow> RateLimitWait (rateLimitWait resp (now_at env j)))"

definition backoffs :: "sleep list \<Rightarrow> Duration list" where
  "backoffs sl = concat (map (\<lambda>s. case s of Backoff d \<Rightarrow> [d] | RateLimitWait _ \<Rightarrow> []) sl)"

definition retryable :: "do_result \<Rightarrow> bool" where
  "retryable r =
     (case r of
        DoErr err \<Rightarrow> isTransient err
      | DoResp resp \<Rightarrow> StatusCode resp \<in> {500, 502, 503, 504})"

definition rateLimitWaits :: "sleep list \<Rightarrow> Duration list" where
  "rateLimitWaits sl = concat (map (\<lambda>s. case s of Backoff _ \<Rightarrow> [] | RateLimitWait d \<Rightarrow> [d]) sl)"

definition budget_ok :: "doJSON_outcome \<Rightarrow> bool" where
  "budget_ok out \<longleftrightarrow>
     calls out = length (sleeps out) + 1
     \<and> (\<exists>k\<le>2. backoffs (sleeps out) = map (\<lambda>a. Second * 2 ^ a) [0..<k])
     \<and> (\<forall>st body. snd (ret out) = Some (APIError st body) \<longrightarrow> length body \<le> 4096)"

text \<open>Inputs of the kernel-checked examples for the call layer.\<close>

definition pastResetResp :: http_response where
  "pastResetResp = \<lparr>StatusCode = 429, RateLimitReset = ''100'', RespBody = NoBody\<rparr>"

definition futureResetResp :: http_response where
  "futureResetResp = \<lparr>StatusCode = 429, RateLimitReset = ''1700000002'', RespBody = NoBody\<rparr>"

definition noResetResp :: http_response where
  "noResetResp = \<lparr>StatusCode = 429, RateLimitReset = [], RespBody = NoBody\<rparr>"

definition okResp :: http_response where
  "okResp = \<lparr>StatusCode = 200, RateLimitReset = [], RespBody = Body ''{}'' None\<rparr>"

definition unavailableResp :: http_response where
  "unavailableResp = \<lparr>StatusCode = 503, RateLimitReset = [], RespBody = Body ''busy'' None\<rparr>"

definition notFoundResp :: http_response where
  "notFoundResp = \<lparr>StatusCode = 404, RateLimitReset = [], RespBody = Body ''Not Found'' None\<rparr>"

text \<open>Two rate-limit responses (one with a reset two seconds ahead, one without), then success.\<close>

definition rateLimitedEnv :: http_env where
  "rateLimitedEnv =
     \<lparr>do_at = (\<lambda>i. if i = 0 then DoResp futureResetResp
                    else if i = 1 then DoResp noResetResp else DoResp okResp),
      now_at = (\<lambda>i. 1700000000 * 1000000000),
      decode_ok = (\<lambda>b. True)\<rparr>"

text \<open>A 503, then a connection reset, then a 404.\<close>

definition flakyEnv :: http_env where
  "flakyEnv =
     \<lparr>do_at = (\<lambda>i. if i = 0 then DoResp unavailableResp
                    else if i = 1 then DoErr ''POST /x: read tcp: connection reset by peer''
                    else DoResp notFoundResp),
      now_at = (\<lambda>i. 1700000000 * 1000000000),
      decode_ok = (\<lambda>b. True)\<rparr>"

text \<open>
  Three timeouts as \<^verbatim>\<open>c.do\<close> returns them, that is
  \<^verbatim>\<open>fmt.Errorf("%s %s: %w", method, url, err)\<close> around the \<^verbatim>\<open>*url.Error\<close> of
  \<^verbatim>\<open>c.http.Do\<close>, which quotes the URL: the expiry of the \<^verbatim>\<open>Timeout\<close> of 30 seconds
  that \<^verbatim>\<open>NewClient\<close> sets on its \<^verbatim>\<open>http.Client\<close>, a read that the operating
  system ends with "connection timed out", and a dial that times out. In the environment
  the first call meets the first timeout and every later call succeeds.
\<close>

definition requestURL :: string where
  "requestURL = ''https://api.github.com/enterprises/acme/settings/billing/cost-centers''"

definition clientTimeoutError :: string where
  "clientTimeoutError =
     ''GET '' @ requestURL @ '': Get '' @ [CHR 0x22] @ requestURL @ [CHR 0x22]
       @ '': context deadline exceeded (Client.Timeout exceeded while awaiting headers)''"

definition connectionTimedOutError :: string where
  "connectionTimedOutError =
     ''GET '' @ requestURL @ '': Get '' @ [CHR 0x22] @ requestURL @ [CHR 0x22]
       @ '': read tcp 10.1.2.3:51234->140.82.112.6:443: read: connection timed out''"

definition dialTimeoutError :: string where
  "dialTimeoutError =
     ''GET '' @ requestURL @ '': Get '' @ [CHR 0x22] @ requestURL @ [CHR 0x22]
       @ '': dial tcp 140.82.112.6:443: i/o timeout''"

definition clientTimeoutEnv :: http_env where
  "clientTimeoutEnv =
     \<lparr>do_at = (\<lambda>i. if i = 0 then DoErr clientTimeoutError else DoResp okResp),
      now_at = (\<lambda>i. 1700000000 * 1000000000),
      decode_ok = (\<lambda>b. True)\<rparr>"

section \<open>Go maps\<close>

text \<open>
  A Go map that the program ranges over is an association list with distinct keys:
  \<^verbatim>\<open>m[k] = v\<close> is \<^const>\<open>AList.update\<close>, \<^verbatim>\<open>v, ok := m[k]\<close> is \<^const>\<open>map_of\<close>,
  \<^verbatim>\<open>len(m)\<close> is \<^const>\<open>length\<close>. A map that is only indexed is a function
  \<open>'k \<rightharpoonup> 'v\<close>. Reading a missing key yields the zero value of the element type.
\<close>

definition getOr :: "'v \<Rightarrow> ('k \<rightharpoonup> 'v) \<Rightarrow> 'k \<Rightarrow> 'v" where
  "getOr z m k = (case m k of None \<Rightarrow> z | Some v \<Rightarrow> v)"

text \<open>
  The order in which \<^verbatim>\<open>range\<close> visits a map is not specified by Go. All maps ranged
  over here have string keys; the order is a parameter \<open>ord\<close> that rearranges the list
  of keys, and \<^verbatim>\<open>for k, v := range m\<close> visits \<open>go_range ord m\<close>.
\<close>

definition go_range :: "(string list \<Rightarrow> string list) \<Rightarrow> (string \<times> 'v) list \<Rightarrow> (string \<times> 'v) list" where
  "go_range ord m = List.map_filter (\<lambda>k. map_option (Pair k) (map_of m k)) (ord (map fst m))"

text \<open>A range visits every key exactly once.\<close>

definition range_order :: "(string list \<Rightarrow> string list) \<Rightarrow> bool" where
  "range_order ord \<longleftrightarrow> (\<forall>ks. mset (ord ks) = mset ks)"

section \<open>The cost center client (package github)\<close>

record CostCenter =
  cc_ID :: string
  cc_Name :: string
  cc_State :: string

record costCenterCreateResponse =
  created_ID :: string
  created_Name :: string

record Resource =
  res_Type :: string
  res_Name :: string

record costCenterDetailResponse =
  detail_ID :: string
  detail_Name :: string
  detail_State :: string
  Resources :: "Resource list"

record CostCenterRef =
  ref_ID :: string
  ref_Name :: string

record Membership =
  membership_CostCenter :: CostCenterRef

record Team =
  team_Name :: string
  Slug :: string

record TeamMember =
  Login :: string

text \<open>
  The remote service, as the client sees it through \<open>doJSON\<close>: every field is the outcome
  of one JSON call on the state \<open>'r\<close> of the service, with the state after the call. The
  last five fields are methods of the client whose code is not part of the sources at
  hand (team listing and budget creation); \<open>clock\<close> is \<^verbatim>\<open>time.Now()\<close> and
  \<open>cache_save\<close> the outcome of writing the cache file.
\<close>

record 'r api =
  clock :: "'r \<Rightarrow> Time"
  cache_save :: "cacheData \<Rightarrow> string option"
  list_cost_centers :: "'r \<Rightarrow> (error + CostCenter list) \<times> 'r"
  get_cost_center :: "string \<Rightarrow> 'r \<Rightarrow> (error + costCenterDetailResponse) \<times> 'r"
  post_cost_center :: "string \<Rightarrow> 'r \<Rightarrow> (error + costCenterCreateResponse) \<times> 'r"
  post_users :: "string \<Rightarrow> string list \<Rightarrow> 'r \<Rightarrow> error option \<times> 'r"
  delete_users :: "string \<Rightarrow> string list \<Rightarrow> 'r \<Rightarrow> error option \<times> 'r"
  get_memberships :: "string \<Rightarrow> 'r \<Rightarrow> (error + Membership list) \<times> 'r"
  api_GetEnterpriseTeams :: "'r \<Rightarrow> (error + Team list) \<times> 'r"
  api_GetOrgTeams :: "string \<Rightarrow> 'r \<Rightarrow> (error + Team list) \<times> 'r"
  api_GetEnterpriseTeamMembers :: "string \<Rightarrow> 'r \<Rightarrow> (error + TeamMember list) \<times> 'r"
  api_GetOrgTeamMembers :: "string \<Rightarrow> string \<Rightarrow> 'r \<Rightarrow> (error + TeamMember list) \<times> 'r"
  api_CreateProductBudget ::
    "string \<Rightarrow> string \<Rightarrow> string \<Rightarrow> int \<Rightarrow> 'r \<Rightarrow> (error + bool) \<times> 'r"

text \<open>Every remote call is recorded, with its arguments and its outcome.\<close>

datatype event =
    EvListCostCenters "error + CostCenter list"
  | EvGetCostCenter string "error + costCenterDetailResponse"
  | EvPostCostCenter string "error + costCenterCreateResponse"
  | EvPostUsers string "string list" "error option"
  | EvDeleteUsers string "string list" "error option"
  | EvGetMemberships string "error + Membership list"
  | EvEnterpriseTeams "error + Team list"
  | EvOrgTeams string "error + Team list"
  | EvEnterpriseTeamMembers string "error + TeamMember list"
  | EvOrgTeamMembers string string "error + TeamMember list"
  | EvCreateProductBudget string string string int "error + bool"

text \<open>
  The mutating remote operations: creating a cost center, adding members, removing
  members, creating a budget.
\<close>

fun mutating :: "event \<Rightarrow> bool" where
  "mutating (EvPostCostCenter name r) = True"
| "mutating (EvPostUsers ccID users r) = True"
| "mutating (EvDeleteUsers ccID users r) = True"
| "mutating (EvCreateProductBudget ccID ccName product amount r) = True"
| "mutating (EvListCostCenters r) = False"
| "mutating (EvGetCostCenter ccID r) = False"
| "mutating (EvGetMemberships user r) = False"
| "mutating (EvEnterpriseTeams r) = False"
| "mutating (EvOrgTeams org r) = False"
| "mutating (EvEnterpriseTeamMembers slug r) = False"
| "mutating (EvOrgTeamMembers org slug r) = False"

text \<open>The client: the service it talks to, the calls made so far, the optional cache.\<close>

record 'r Client =
  remote :: 'r
  trace :: "event list"
  ccCache :: "Cache option"

text \<open>\<^verbatim>\<open>if c.ccCache != nil { _ = c.ccCache.Set(key, id, name) }\<close>\<close>

definition cacheSet :: "'r api \<Rightarrow> string \<Rightarrow> string \<Rightarrow> string \<Rightarrow> 'r Client \<Rightarrow> 'r Client" where
  "cacheSet api key id' name c =
     (case ccCache c of
        None \<Rightarrow> c
      | Some cache \<Rightarrow>
          c\<lparr>ccCache := Some (snd (Cache_Set (cache_save api) cache (clock api (remote c))
                                    key id' name))\<rparr>)"

text \<open>\<^verbatim>\<open>if c.ccCache != nil { if entry, ok := c.ccCache.Get(name); ok { ... } }\<close>\<close>

definition cacheGet :: "'r api \<Rightarrow> string \<Rightarrow> 'r Client \<Rightarrow> Entry option" where
  "cacheGet api key c =
     (case ccCache c of
        None \<Rightarrow> None
      | Some cache \<Rightarrow>
          (case fst (Cache_Get cache (clock api (remote c)) key) of
             (entry, ok) \<Rightarrow> if ok then Some entry else None))"

text \<open>
  \<^verbatim>\<open>uuidFromConflictRe\<close>, the pattern
  \<^verbatim>\<open>(?i)existing cost center UUID:\s*([a-f0-9]{8}-[a-f0-9]{4}-[a-f0-9]{4}-[a-f0-9]{4}-[a-f0-9]{12})\<close>,
  matched by \<^verbatim>\<open>FindStringSubmatch\<close>: the leftmost position where the literal (compared
  without case; under Go's case folding an \<open>s\<close> also matches the long s, bytes C5 BF), any
  white space, and 8-4-4-4-12 hexadecimal digits follow each other; the result is the
  digits group.
\<close>

definition equalFold :: "char \<Rightarrow> char \<Rightarrow> bool" where
  "equalFold a b =
     (let x = of_char a :: nat; y = of_char b :: nat
      in x = y \<or> (65 \<le> x \<and> x \<le> 90 \<and> y = x + 32) \<or> (65 \<le> y \<and> y \<le> 90 \<and> x = y + 32))"

fun matchFold :: "string \<Rightarrow> string \<Rightarrow> string option" where
  "matchFold [] s = Some s"
| "matchFold (p # ps) [] = None"
| "matchFold (p # ps) (c # cs) =
     (if equalFold c p then matchFold ps cs
      else if equalFold p (CHR ''s'') \<and> c = CHR 0xC5 \<and> cs \<noteq> [] \<and> hd cs = CHR 0xBF
      then matchFold ps (tl cs)
      else None)"

definition isSpace :: "char \<Rightarrow> bool" where
  "isSpace c = (c \<in> set [CHR 0x09, CHR 0x0A, CHR 0x0C, CHR 0x0D, CHR '' ''])"

definition isHex :: "char \<Rightarrow> bool" where
  "isHex c =
     (let n = of_char c :: nat
      in (48 \<le> n \<and> n \<le> 57) \<or> (97 \<le> n \<and> n \<le> 102) \<or> (65 \<le> n \<and> n \<le> 70))"

text \<open>\<open>n\<close> hexadecimal digits, then the groups that follow, each after a dash.\<close>

fun matchHexGroups :: "nat \<Rightarrow> nat list \<Rightarrow> string \<Rightarrow> string option" where
  "matchHexGroups n groups s =
     (if length s \<ge> n \<and> list_all isHex (take n s) then
        (case groups of
           [] \<Rightarrow> Some (take n s)
         | k # ks \<Rightarrow>
             (case drop n s of
                [] \<Rightarrow> None
              | d # rest \<Rightarrow>
                  if d = CHR ''-'' then map_option (\<lambda>t. take n s @ d # t) (matchHexGroups k ks rest)
                  else None))
      else None)"

definition matchConflictAt :: "string \<Rightarrow> string option" where
  "matchConflictAt s =
     (case matchFold ''existing cost center UUID:'' s of
        None \<Rightarrow> None
      | Some rest \<Rightarrow> matchHexGroups 8 [4, 4, 4, 12] (dropWhile isSpace rest))"

fun uuidFromConflict :: "string \<Rightarrow> string option" where
  "uuidFromConflict [] = matchConflictAt []"
| "uuidFromConflict (c # cs) =
     (case matchConflictAt (c # cs) of
        Some u \<Rightarrow> Some u
      | None \<Rightarrow> uuidFromConflict cs)"

text \<open>\<^verbatim>\<open>func (c *Client) GetAllActiveCostCenters() (map[string]string, error)\<close>\<close>

fun collectActive ::
  "'r api \<Rightarrow> CostCenter list \<Rightarrow> (string \<rightharpoonup> string) \<Rightarrow> 'r Client
     \<Rightarrow> (string \<rightharpoonup> string) \<times> 'r Client" where
  "collectActive api [] active c = (active, c)"
| "collectActive api (cc # ccs) active c =
     (if cc_State cc = ''active'' \<and> cc_Name cc \<noteq> [] \<and> cc_ID cc \<noteq> []
      then collectActive api ccs (active(cc_Name cc \<mapsto> cc_ID cc))
             (cacheSet api (cc_Name cc) (cc_ID cc) (cc_Name cc) c)
      else collectActive api ccs active c)"

definition GetAllActiveCostCenters ::
  "'r api \<Rightarrow> 'r Client \<Rightarrow> (error + (string \<rightharpoonup> string)) \<times> 'r Client" where
  "GetAllActiveCostCenters api c =
     (let (r, rem) = list_cost_centers api (remote c);
          c1 = c\<lparr>remote := rem, trace := trace c @ [EvListCostCenters r]\<rparr>
      in case r of
           Inl err \<Rightarrow> (Inl (Wrap ''fetching cost centers'' err), c1)
         | Inr ccs \<Rightarrow>
             (case collectActive api ccs Map.empty c1 of
                (active, c2) \<Rightarrow> (Inr active, c2)))"

text \<open>\<^verbatim>\<open>func (c *Client) GetCostCenter(id string) (*costCenterDetailResponse, error)\<close>\<close>

definition GetCostCenter ::
  "'r api \<Rightarrow> string \<Rightarrow> 'r Client \<Rightarrow> (error + costCenterDetailResponse) \<times> 'r Client" where
  "GetCostCenter api id' c =
     (let (r, rem) = get_cost_center api id' (remote c);
          c1 = c\<lparr>remote := rem, trace := trace c @ [EvGetCostCenter id' r]\<rparr>
      in case r of
           Inl err \<Rightarrow> (Inl (Wrap (''fetching cost center '' @ id') err), c1)
         | Inr resp \<Rightarrow> (Inr resp, c1))"

text \<open>\<^verbatim>\<open>func (c *Client) GetCostCenterMembers(id string) ([]string, error)\<close>\<close>

definition usersOf :: "costCenterDetailResponse \<Rightarrow> string list" where
  "usersOf detail =
     map res_Name (filter (\<lambda>r. res_Type r = ''User'' \<and> res_Name r \<noteq> []) (Resources detail))"

definition GetCostCenterMembers ::
  "'r api \<Rightarrow> string \<Rightarrow> 'r Client \<Rightarrow> (error + string list) \<times> 'r Client" where
  "GetCostCenterMembers api id' c =
     (case GetCostCenter api id' c of
        (Inl err, c1) \<Rightarrow> (Inl err, c1)
      | (Inr detail, c1) \<Rightarrow> (Inr (usersOf detail), c1))"

text \<open>\<^verbatim>\<open>func (c *Client) findCostCenterByName(name string) (string, error)\<close>\<close>

definition findCostCenterByName ::
  "'r api \<Rightarrow> string \<Rightarrow> 'r Client \<Rightarrow> (error + string) \<times> 'r Client" where
  "findCostCenterByName api name c =
     (case GetAllActiveCostCenters api c of
        (Inl err, c1) \<Rightarrow> (Inl (Wrap (''finding cost center by name '' @ name) err), c1)
      | (Inr active, c1) \<Rightarrow>
          (case active name of
             Some id' \<Rightarrow> (Inr id', c1)
           | None \<Rightarrow> (Inl (Err (''no active cost center found with name '' @ name)), c1)))"

text \<open>\<^verbatim>\<open>func (c *Client) CreateCostCenter(name string) (string, error)\<close>\<close>

definition CreateCostCenter ::
  "'r api \<Rightarrow> string \<Rightarrow> 'r Client \<Rightarrow> (error + string) \<times> 'r Client" where
  "CreateCostCenter api name c =
     (case cacheGet api name c of
        Some entry \<Rightarrow> (Inr (ID entry), c)
      | None \<Rightarrow>
          (let (r, rem) = post_cost_center api name (remote c);
               c1 = c\<lparr>remote := rem, trace := trace c @ [EvPostCostCenter name r]\<rparr>
           in case r of
                Inr resp \<Rightarrow> (Inr (created_ID resp), cacheSet api name (created_ID resp) name c1)
              | Inl err \<Rightarrow>
                  (case asAPIError err of
                     Some (st, body) \<Rightarrow>
                       if st = 409 then
                         (case uuidFromConflict body of
                            Some uuid \<Rightarrow> (Inr uuid, cacheSet api name uuid name c1)
                          | None \<Rightarrow> findCostCenterByName api name c1)
                       else (Inl (Wrap (''creating cost center '' @ name) err), c1)
                   | None \<Rightarrow> (Inl (Wrap (''creating cost center '' @ name) err), c1))))"

text \<open>
  \<^verbatim>\<open>func (c *Client) CreateCostCenterWithPreload(name string, activeMap map[string]string) (string, error)\<close>;
  the map is updated in place, so it is returned.
\<close>

definition CreateCostCenterWithPreload ::
  "'r api \<Rightarrow> string \<Rightarrow> (string \<rightharpoonup> string) \<Rightarrow> 'r Client
     \<Rightarrow> (error + string) \<times> (string \<rightharpoonup> string) \<times> 'r Client" where
  "CreateCostCenterWithPreload api name activeMap c =
     (case activeMap name of
        Some id' \<Rightarrow> (Inr id', activeMap, c)
      | None \<Rightarrow>
          (case cacheGet api name c of
             Some entry \<Rightarrow> (Inr (ID entry), activeMap(name \<mapsto> ID entry), c)
           | None \<Rightarrow>
               (case CreateCostCenter api name c of
                  (Inl err, c1) \<Rightarrow> (Inl err, activeMap, c1)
                | (Inr id', c1) \<Rightarrow> (Inr id', activeMap(name \<mapsto> id'), c1))))"

text \<open>\<^verbatim>\<open>func (c *Client) CheckUserCostCenterMembership(username string) (*CostCenterRef, error)\<close>\<close>

definition CheckUserCostCenterMembership ::
  "'r api \<Rightarrow> string \<Rightarrow> 'r Client \<Rightarrow> (CostCenterRef option \<times> error option) \<times> 'r Client" where
  "CheckUserCostCenterMembership api username c =
     (let (r, rem) = get_memberships api username (remote c);
          c1 = c\<lparr>remote := rem, trace := trace c @ [EvGetMemberships username r]\<rparr>
      in case r of
           Inl err \<Rightarrow> ((None, None), c1)
         | Inr memberships \<Rightarrow>
             (case memberships of
                m # ms \<Rightarrow> ((Some (membership_CostCenter m), None), c1)
              | [] \<Rightarrow> ((None, None), c1)))"

text \<open>
  \<^verbatim>\<open>func (c *Client) AddUsersToCostCenter(costCenterID string, usernames []string, ignoreCurrentCC bool) (map[string]bool, error)\<close>.
  \<open>selectToAdd\<close> is the loop over the user names, \<open>addBatches\<close> the loop over the
  batches of 50.
\<close>

fun selectToAdd ::
  "'r api \<Rightarrow> bool \<Rightarrow> string set \<Rightarrow> string list \<Rightarrow> (string \<rightharpoonup> bool) \<Rightarrow> string list \<Rightarrow> 'r Client
     \<Rightarrow> (string \<rightharpoonup> bool) \<times> string list \<times> 'r Client" where
  "selectToAdd api ignoreCurrentCC memberSet [] results toAdd c = (results, toAdd, c)"
| "selectToAdd api ignoreCurrentCC memberSet (u # us) results toAdd c =
     (if u \<in> memberSet
      then selectToAdd api ignoreCurrentCC memberSet us (results(u \<mapsto> True)) toAdd c
      else if \<not> ignoreCurrentCC then
        (case CheckUserCostCenterMembership api u c of
           ((Some mem, err), c1) \<Rightarrow>
             selectToAdd api ignoreCurrentCC memberSet us (results(u \<mapsto> False)) toAdd c1
         | ((None, err), c1) \<Rightarrow>
             selectToAdd api ignoreCurrentCC memberSet us results (toAdd @ [u]) c1)
      else selectToAdd api ignoreCurrentCC memberSet us results (toAdd @ [u]) c)"

definition batchSize :: nat where
  "batchSize = 50"

function addBatches ::
  "'r api \<Rightarrow> string \<Rightarrow> string list \<Rightarrow> (string \<rightharpoonup> bool) \<Rightarrow> 'r Client
     \<Rightarrow> (string \<rightharpoonup> bool) \<times> 'r Client" where
  "addBatches api costCenterID toAdd results c =
     (if toAdd = [] then (results, c)
      else
        (let batch = take batchSize toAdd;
             (err, rem) = post_users api costCenterID batch (remote c);
             c1 = c\<lparr>remote := rem, trace := trace c @ [EvPostUsers costCenterID batch err]\<rparr>;
             results1 = (\<lambda>u. if u \<in> set batch then Some (err = None) else results u)
         in addBatches api costCenterID (drop batchSize toAdd) results1 c1))"
  by pat_completeness auto
termination
  by (relation "measure (\<lambda>(api, costCenterID, toAdd, results, c). length toAdd)")
     (auto simp: batchSize_def)

declare addBatches.simps [simp del]

definition AddUsersToCostCenter ::
  "'r api \<Rightarrow> string \<Rightarrow> string list \<Rightarrow> bool \<Rightarrow> 'r Client
     \<Rightarrow> (error + (string \<rightharpoonup> bool)) \<times> 'r Client" where
  "AddUsersToCostCenter api costCenterID usernames ignoreCurrentCC c =
     (if usernames = [] then (Inr Map.empty, c)
      else
        (case GetCostCenterMembers api costCenterID c of
           (Inl err, c1) \<Rightarrow> (Inl (Wrap ''checking cost center members'' err), c1)
         | (Inr currentMembers, c1) \<Rightarrow>
             (case selectToAdd api ignoreCurrentCC (set currentMembers) usernames
                     Map.empty [] c1 of
                (results, toAdd, c2) \<Rightarrow>
                  if toAdd = [] then (Inr results, c2)
                  else (case addBatches api costCenterID toAdd results c2 of
                          (results', c3) \<Rightarrow> (Inr results', c3)))))"

text \<open>
  \<^verbatim>\<open>func (c *Client) BulkUpdateCostCenterAssignments(assignments map[string][]string, ignoreCurrentCC bool) (map[string]map[string]bool, error)\<close>
\<close>

fun bulkUpdateLoop ::
  "'r api \<Rightarrow> bool \<Rightarrow> (string \<times> string list) list \<Rightarrow> (string \<rightharpoonup> (string \<rightharpoonup> bool)) \<Rightarrow> 'r Client
     \<Rightarrow> (string \<rightharpoonup> (string \<rightharpoonup> bool)) \<times> 'r Client" where
  "bulkUpdateLoop api ignoreCurrentCC [] results c = (results, c)"
| "bulkUpdateLoop api ignoreCurrentCC ((ccID, usernames) # rest) results c =
     (if usernames = [] then bulkUpdateLoop api ignoreCurrentCC rest results c
      else
        (case AddUsersToCostCenter api ccID usernames ignoreCurrentCC c of
           (Inl err, c1) \<Rightarrow>
             bulkUpdateLoop api ignoreCurrentCC rest
               (results(ccID \<mapsto> (\<lambda>u. if u \<in> set usernames then Some False else None))) c1
         | (Inr ccResults, c1) \<Rightarrow>
             bulkUpdateLoop api ignoreCurrentCC rest (results(ccID \<mapsto> ccResults)) c1))"

definition BulkUpdateCostCenterAssignments ::
  "'r api \<Rightarrow> (string list \<Rightarrow> string list) \<Rightarrow> (string \<times> string list) list \<Rightarrow> bool \<Rightarrow> 'r Client
     \<Rightarrow> ((string \<rightharpoonup> (string \<rightharpoonup> bool)) \<times> error option) \<times> 'r Client" where
  "BulkUpdateCostCenterAssignments api ord assignments ignoreCurrentCC c =
     (case bulkUpdateLoop api ignoreCurrentCC (go_range ord assignments) Map.empty c of
        (results, c1) \<Rightarrow> ((results, None), c1))"

text \<open>
  \<^verbatim>\<open>func (c *Client) RemoveUsersFromCostCenter(costCenterID string, usernames []string) (map[string]bool, error)\<close>
\<close>

definition RemoveUsersFromCostCenter ::
  "'r api \<Rightarrow> string \<Rightarrow> string list \<Rightarrow> 'r Client
     \<Rightarrow> ((string \<rightharpoonup> bool) \<times> error option) \<times> 'r Client" where
  "RemoveUsersFromCostCenter api costCenterID usernames c =
     (if usernames = [] then ((Map.empty, None), c)
      else
        (let (err, rem) = delete_users api costCenterID usernames (remote c);
             c1 = c\<lparr>remote := rem, trace := trace c @ [EvDeleteUsers costCenterID usernames err]\<rparr>
         in case err of
              Some e \<Rightarrow>
                (((\<lambda>u. if u \<in> set usernames then Some False else None),
                  Some (Wrap (''removing users from cost center '' @ costCenterID) e)), c1)
            | None \<Rightarrow>
                (((\<lambda>u. if u \<in> set usernames then Some True else None), None), c1)))"

section \<open>The teams manager (package teams)\<close>

record UserAssignment =
  Username :: string
  CostCenter :: string
  Org :: string
  TeamSlug :: string

record ProductBudget =
  Amount :: int
  Enabled :: bool

text \<open>
  The manager: the configuration copied at construction (\<open>Enterprise\<close> is
  \<^verbatim>\<open>m.cfg.Enterprise\<close>), the budget configuration, and the three caches of a run.
  \<open>staleLog\<close> holds the warnings "Users no longer in team for cost center" written to
  the log: the display name of the cost center and the sorted stale users.
  \<open>syncLog\<close> holds the records that the body of \<^verbatim>\<open>SyncTeamAssignments\<close> writes to
  the log, each with its attributes:

    \<^item> \<open>NoTeamAssignments\<close>: "No team assignments to sync";
    \<^item> \<open>WouldEnsure count\<close>: "Plan mode: would ensure cost centers exist";
    \<^item> \<open>PreparedAssignments cost_centers total_users\<close>: "Prepared assignments";
    \<^item> \<open>WouldSync\<close>: "MODE=plan: would sync the following assignments:";
    \<^item> \<open>WouldAssign cost_center users\<close>: "Would assign", with the number of users;
    \<^item> \<open>FullSyncEnabled\<close>: "Full sync mode is ENABLED -- in apply mode, users no longer
      in teams would be removed";
    \<^item> \<open>Syncing\<close>: "Syncing team-based assignments to GitHub Enterprise...";
    \<^item> \<open>CheckingStale\<close>: "Checking for users no longer in teams...".
\<close>

datatype logRecord =
    NoTeamAssignments
  | WouldEnsure nat
  | PreparedAssignments nat nat
  | WouldSync
  | WouldAssign string nat
  | FullSyncEnabled
  | Syncing
  | CheckingStale

record Manager =
  Enterprise :: string
  scope :: string
  mode :: string
  orgs :: "string list"
  autoCreate :: bool
  mappings :: "string \<rightharpoonup> string"
  removeUsers :: bool
  createBudgets :: bool
  budgetProducts :: "(string \<times> ProductBudget) list"
  teamsCache :: "(string \<times> Team list) list"
  membersCache :: "string \<rightharpoonup> string list"
  ccNameCache :: "string \<rightharpoonup> string"
  staleLog :: "(string \<times> string list) list"
  syncLog :: "logRecord list"

definition logSync :: "logRecord \<Rightarrow> Manager \<Rightarrow> Manager" where
  "logSync r m = m\<lparr>syncLog := syncLog m @ [r]\<rparr>"

text \<open>\<^verbatim>\<open>func (m *Manager) fetchAllTeams() (map[string][]github.Team, error)\<close>\<close>

fun fetchOrgTeams ::
  "'r api \<Rightarrow> string list \<Rightarrow> (string \<times> Team list) list \<Rightarrow> Manager \<Rightarrow> 'r Client
     \<Rightarrow> (error + (string \<times> Team list) list) \<times> Manager \<times> 'r Client" where
  "fetchOrgTeams api [] allTeams m c = (Inr allTeams, m, c)"
| "fetchOrgTeams api (org # rest) allTeams m c =
     (let (r, rem) = api_GetOrgTeams api org (remote c);
          c1 = c\<lparr>remote := rem, trace := trace c @ [EvOrgTeams org r]\<rparr>
      in case r of
           Inl err \<Rightarrow> (Inl (Wrap (''fetching teams for org '' @ org) err), m, c1)
         | Inr teams \<Rightarrow>
             fetchOrgTeams api rest (AList.update org teams allTeams)
               (m\<lparr>teamsCache := AList.update org teams (teamsCache m)\<rparr>) c1)"

definition fetchAllTeams ::
  "'r api \<Rightarrow> Manager \<Rightarrow> 'r Client
     \<Rightarrow> (error + (string \<times> Team list) list) \<times> Manager \<times> 'r Client" where
  "fetchAllTeams api m c =
     (if scope m = ''enterprise'' then
        (let (r, rem) = api_GetEnterpriseTeams api (remote c);
             c1 = c\<lparr>remote := rem, trace := trace c @ [EvEnterpriseTeams r]\<rparr>
         in case r of
              Inl err \<Rightarrow> (Inl (Wrap ''fetching enterprise teams'' err), m, c1)
            | Inr teams \<Rightarrow>
                (Inr [(Enterprise m, teams)],
                 m\<lparr>teamsCache := AList.update (Enterprise m) teams (teamsCache m)\<rparr>, c1))
      else if orgs m = [] then (Inr [], m, c)
      else fetchOrgTeams api (orgs m) [] m c)"

text \<open>The key of a team in the caches: the slug for enterprise scope, org/slug otherwise.\<close>

definition teamKey :: "Manager \<Rightarrow> string \<Rightarrow> string \<Rightarrow> string" where
  "teamKey m orgOrEnterprise teamSlug =
     (if scope m = ''enterprise'' then teamSlug else orgOrEnterprise @ ''/'' @ teamSlug)"

text \<open>\<^verbatim>\<open>func (m *Manager) fetchTeamMembers(orgOrEnterprise, teamSlug string) ([]string, error)\<close>\<close>

definition fetchTeamMembers ::
  "'r api \<Rightarrow> string \<Rightarrow> string \<Rightarrow> Manager \<Rightarrow> 'r Client
     \<Rightarrow> (error + string list) \<times> Manager \<times> 'r Client" where
  "fetchTeamMembers api orgOrEnterprise teamSlug m c =
     (let cacheKey = teamKey m orgOrEnterprise teamSlug in
      case membersCache m cacheKey of
        Some cached \<Rightarrow> (Inr cached, m, c)
      | None \<Rightarrow>
          (let (r, rem) =
                 (if scope m = ''enterprise''
                  then api_GetEnterpriseTeamMembers api teamSlug (remote c)
                  else api_GetOrgTeamMembers api orgOrEnterprise teamSlug (remote c));
               ev = (if scope m = ''enterprise'' then EvEnterpriseTeamMembers teamSlug r
                     else EvOrgTeamMembers orgOrEnterprise teamSlug r);
               c1 = c\<lparr>remote := rem, trace := trace c @ [ev]\<rparr>
           in case r of
                Inl err \<Rightarrow> (Inl (Wrap (''fetching members for team '' @ cacheKey) err), m, c1)
              | Inr members \<Rightarrow>
                  (let usernames = filter (\<lambda>login. login \<noteq> []) (map Login members)
                   in (Inr usernames,
                       m\<lparr>membersCache := (membersCache m)(cacheKey \<mapsto> usernames)\<rparr>, c1))))"

text \<open>\<^verbatim>\<open>func (m *Manager) costCenterForTeam(orgOrEnterprise string, team github.Team) (string, bool)\<close>\<close>

definition costCenterForTeam ::
  "Manager \<Rightarrow> string \<Rightarrow> Team \<Rightarrow> (string \<times> bool) \<times> Manager" where
  "costCenterForTeam m orgOrEnterprise team =
     (let key = teamKey m orgOrEnterprise (Slug team) in
      case ccNameCache m key of
        Some cc \<Rightarrow> ((cc, True), m)
      | None \<Rightarrow>
          if mode m = ''manual'' then
            (case mappings m key of
               None \<Rightarrow> (([], False), m)
             | Some cc \<Rightarrow> ((cc, True), m\<lparr>ccNameCache := (ccNameCache m)(key \<mapsto> cc)\<rparr>))
          else if mode m = ''auto'' then
            (let ccName =
                   (if scope m = ''enterprise'' then ''[enterprise team] '' @ team_Name team
                    else ''[org team] '' @ orgOrEnterprise @ ''/'' @ team_Name team)
             in ((ccName, True), m\<lparr>ccNameCache := (ccNameCache m)(key \<mapsto> ccName)\<rparr>))
          else (([], False), m))"

text \<open>
  \<^verbatim>\<open>func (m *Manager) BuildTeamAssignments() (map[string][]UserAssignment, error)\<close>.
  The two nested loops visit the pairs of \<open>teamPairs\<close> in this order, and a
  \<^verbatim>\<open>return\<close> in the body leaves both; \<open>processTeams\<close> is that loop, \<open>assignMembers\<close>
  the loop over the members of one team, \<open>groupAssignments\<close> the final conversion.
  The report of the users found in several teams only writes to the log.
\<close>

definition teamPairs :: "(string \<times> Team list) list \<Rightarrow> (string \<times> Team) list" where
  "teamPairs visited = concat (map (\<lambda>(org, teams). map (Pair org) teams) visited)"

fun assignMembers ::
  "string \<Rightarrow> string \<Rightarrow> Team \<Rightarrow> string \<Rightarrow> string list
     \<Rightarrow> (string \<times> UserAssignment) list \<times> (string \<rightharpoonup> string list)
     \<Rightarrow> (string \<times> UserAssignment) list \<times> (string \<rightharpoonup> string list)" where
  "assignMembers ccName orgOrEnterprise team key [] (userFinal, userTeamMap) =
     (userFinal, userTeamMap)"
| "assignMembers ccName orgOrEnterprise team key (username # rest) (userFinal, userTeamMap) =
     assignMembers ccName orgOrEnterprise team key rest
       (AList.update username
          \<lparr>Username = username, CostCenter = ccName, Org = orgOrEnterprise,
           TeamSlug = Slug team\<rparr> userFinal,
        userTeamMap(username \<mapsto> getOr [] userTeamMap username @ [key]))"

fun processTeams ::
  "'r api \<Rightarrow> (string \<times> Team) list
     \<Rightarrow> (string \<times> UserAssignment) list \<times> (string \<rightharpoonup> string list)
     \<Rightarrow> Manager \<Rightarrow> 'r Client
     \<Rightarrow> (error + (string \<times> UserAssignment) list \<times> (string \<rightharpoonup> string list))
         \<times> Manager \<times> 'r Client" where
  "processTeams api [] acc m c = (Inr acc, m, c)"
| "processTeams api ((orgOrEnterprise, team) # rest) acc m c =
     (case costCenterForTeam m orgOrEnterprise team of
        ((ccName, ok), m1) \<Rightarrow>
          if \<not> ok then processTeams api rest acc m1 c
          else
            (case fetchTeamMembers api orgOrEnterprise (Slug team) m1 c of
               (Inl err, m2, c2) \<Rightarrow> (Inl err, m2, c2)
             | (Inr members, m2, c2) \<Rightarrow>
                 if members = [] then processTeams api rest acc m2 c2
                 else processTeams api rest
                        (assignMembers ccName orgOrEnterprise team
                           (teamKey m2 orgOrEnterprise (Slug team)) members acc) m2 c2))"

fun groupAssignments ::
  "(string \<times> UserAssignment) list \<Rightarrow> (string \<times> UserAssignment list) list
     \<Rightarrow> (string \<times> UserAssignment list) list" where
  "groupAssignments [] assignments = assignments"
| "groupAssignments ((user, ua) # rest) assignments =
     groupAssignments rest
       (AList.update (CostCenter ua)
          (getOr [] (map_of assignments) (CostCenter ua) @ [ua]) assignments)"

definition BuildTeamAssignments ::
  "'r api \<Rightarrow> (string list \<Rightarrow> string list) \<Rightarrow> Manager \<Rightarrow> 'r Client
     \<Rightarrow> (error + (string \<times> UserAssignment list) list option) \<times> Manager \<times> 'r Client" where
  "BuildTeamAssignments api ord m c =
     (case fetchAllTeams api m c of
        (Inl err, m1, c1) \<Rightarrow> (Inl err, m1, c1)
      | (Inr allTeams, m1, c1) \<Rightarrow>
          if length allTeams = 0 then (Inr None, m1, c1)
          else
            (case processTeams api (teamPairs (go_range ord allTeams)) ([], Map.empty) m1 c1 of
               (Inl err, m2, c2) \<Rightarrow> (Inl err, m2, c2)
             | (Inr (userFinal, userTeamMap), m2, c2) \<Rightarrow>
                 (Inr (Some (groupAssignments (go_range ord userFinal) [])), m2, c2)))"

text \<open>
  The groups that \<open>processTeams\<close> does not skip, in the order of processing, each with
  the cost center name resolved for it and the members fetched for it: the vocabulary
  for "the group processed last".
\<close>

fun processedGroups ::
  "'r api \<Rightarrow> (string \<times> Team) list \<Rightarrow> Manager \<Rightarrow> 'r Client
     \<Rightarrow> (string \<times> Team \<times> string \<times> string list) list" where
  "processedGroups api [] m c = []"
| "processedGroups api ((orgOrEnterprise, team) # rest) m c =
     (case costCenterForTeam m orgOrEnterprise team of
        ((ccName, ok), m1) \<Rightarrow>
          if \<not> ok then processedGroups api rest m1 c
          else
            (case fetchTeamMembers api orgOrEnterprise (Slug team) m1 c of
               (Inl err, m2, c2) \<Rightarrow> []
             | (Inr members, m2, c2) \<Rightarrow>
                 if members = [] then processedGroups api rest m2 c2
                 else (orgOrEnterprise, team, ccName, members) # processedGroups api rest m2 c2))"

definition groupsOfRun ::
  "'r api \<Rightarrow> (string list \<Rightarrow> string list) \<Rightarrow> Manager \<Rightarrow> 'r Client
     \<Rightarrow> (string \<times> Team \<times> string \<times> string list) list" where
  "groupsOfRun api ord m c =
     (case fetchAllTeams api m c of
        (Inl err, m1, c1) \<Rightarrow> []
      | (Inr allTeams, m1, c1) \<Rightarrow> processedGroups api (teamPairs (go_range ord allTeams)) m1 c1)"

text \<open>
  The last processed group that has the user among its members, and the assignment
  computed from a group for a user.
\<close>

definition lastGroupOf ::
  "string \<Rightarrow> (string \<times> Team \<times> string \<times> string list) list
     \<Rightarrow> (string \<times> Team \<times> string \<times> string list) option" where
  "lastGroupOf u groups = List.find (\<lambda>(org, team, ccName, members). u \<in> set members) (rev groups)"

definition assignmentFrom :: "string \<Rightarrow> string \<times> Team \<times> string \<times> string list \<Rightarrow> UserAssignment" where
  "assignmentFrom u g =
     (case g of (org, team, ccName, members) \<Rightarrow>
        \<lparr>Username = u, CostCenter = ccName, Org = org, TeamSlug = Slug team\<rparr>)"

text \<open>The lookup table of the final assignments after processing the groups.\<close>

definition finalOf ::
  "(string \<times> Team \<times> string \<times> string list) list \<Rightarrow> (string \<times> UserAssignment) list
     \<Rightarrow> string \<Rightarrow> UserAssignment option" where
  "finalOf groups uf u =
     (case lastGroupOf u groups of None \<Rightarrow> map_of uf u | Some g \<Rightarrow> Some (assignmentFrom u g))"

text \<open>A result map has distinct keys, and files every assignment under its cost center.\<close>

definition keyed :: "(string \<times> UserAssignment list) list \<Rightarrow> bool" where
  "keyed assignments \<longleftrightarrow>
     distinct (map fst assignments)
     \<and> (\<forall>(k, uas) \<in> set assignments. \<forall>ua \<in> set uas. CostCenter ua = k)"

text \<open>All assignments of a result, over all cost center keys.\<close>

definition allAssignments :: "(string \<times> UserAssignment list) list option \<Rightarrow> UserAssignment list" where
  "allAssignments r = (case r of None \<Rightarrow> [] | Some assignments \<Rightarrow> concat (map snd assignments))"

text \<open>
  \<^verbatim>\<open>func (m *Manager) EnsureCostCentersExist(ccNames []string) (map[string]string, map[string]bool, error)\<close>.
  A nil map is \<open>None\<close>.
\<close>

fun ensureLoop ::
  "'r api \<Rightarrow> string list \<Rightarrow> (string \<rightharpoonup> string) \<Rightarrow> (string \<times> string) list
     \<Rightarrow> (string \<times> bool) list \<Rightarrow> 'r Client
     \<Rightarrow> (string \<times> string) list \<times> (string \<times> bool) list \<times> 'r Client" where
  "ensureLoop api [] activeMap ccMap newlyCreated c = (ccMap, newlyCreated, c)"
| "ensureLoop api (name # rest) activeMap ccMap newlyCreated c =
     (case activeMap name of
        Some id' \<Rightarrow> ensureLoop api rest activeMap (AList.update name id' ccMap) newlyCreated c
      | None \<Rightarrow>
          (case CreateCostCenterWithPreload api name activeMap c of
             (Inl err, activeMap1, c1) \<Rightarrow>
               ensureLoop api rest activeMap1 (AList.update name name ccMap) newlyCreated c1
           | (Inr id', activeMap1, c1) \<Rightarrow>
               ensureLoop api rest activeMap1 (AList.update name id' ccMap)
                 (AList.update id' True newlyCreated) c1))"

definition identityMap :: "string list \<Rightarrow> (string \<times> string) list" where
  "identityMap ccNames = foldl (\<lambda>identity n. AList.update n n identity) [] ccNames"

definition EnsureCostCentersExist ::
  "'r api \<Rightarrow> Manager \<Rightarrow> string list \<Rightarrow> 'r Client
     \<Rightarrow> ((string \<times> string) list \<times> (string \<times> bool) list option \<times> error option) \<times> 'r Client" where
  "EnsureCostCentersExist api m ccNames c =
     (if \<not> autoCreate m then ((identityMap ccNames, None, None), c)
      else
        (case (case GetAllActiveCostCenters api c of
                 (Inl err, c1) \<Rightarrow> (Map.empty, c1)
               | (Inr active, c1) \<Rightarrow> (active, c1)) of
           (activeMap, c1) \<Rightarrow>
             (case ensureLoop api ccNames activeMap [] [] c1 of
                (ccMap, newlyCreated, c2) \<Rightarrow> ((ccMap, Some newlyCreated, None), c2))))"

text \<open>\<^verbatim>\<open>newlyCreated[ccID]\<close>, also on a nil map.\<close>

definition isNewlyCreated :: "(string \<times> bool) list option \<Rightarrow> string \<Rightarrow> bool" where
  "isNewlyCreated newlyCreated ccID =
     (case newlyCreated of None \<Rightarrow> False | Some nc \<Rightarrow> getOr False (map_of nc) ccID)"

text \<open>The reverse map \<^verbatim>\<open>idToName\<close> built by ranging over the name to id map.\<close>

definition reverseMap :: "(string list \<Rightarrow> string list) \<Rightarrow> (string \<times> string) list \<Rightarrow> (string \<rightharpoonup> string)" where
  "reverseMap ord ccMap =
     foldl (\<lambda>idToName (name, id'). idToName(id' \<mapsto> name)) Map.empty (go_range ord ccMap)"

definition displayNameOf :: "(string \<rightharpoonup> string) \<Rightarrow> string \<Rightarrow> string" where
  "displayNameOf idToName ccID =
     (if getOr [] idToName ccID = [] then ccID else getOr [] idToName ccID)"

text \<open>\<^verbatim>\<open>func (m *Manager) createBudgetsForNewCCs(ccMap map[string]string, newlyCreated map[string]bool)\<close>\<close>

fun budgetsForProducts ::
  "'r api \<Rightarrow> string \<Rightarrow> string \<Rightarrow> (string \<times> ProductBudget) list \<Rightarrow> 'r Client \<Rightarrow> bool \<times> 'r Client" where
  "budgetsForProducts api ccID ccName [] c = (False, c)"
| "budgetsForProducts api ccID ccName ((product, pc) # rest) c =
     (if \<not> Enabled pc then budgetsForProducts api ccID ccName rest c
      else
        (let (r, rem) = api_CreateProductBudget api ccID ccName product (Amount pc) (remote c);
             c1 = c\<lparr>remote := rem,
                    trace := trace c @ [EvCreateProductBudget ccID ccName product (Amount pc) r]\<rparr>
         in case r of
              Inl (BudgetsAPIUnavailableError msg) \<Rightarrow> (True, c1)
            | Inl err \<Rightarrow> budgetsForProducts api ccID ccName rest c1
            | Inr ok \<Rightarrow> budgetsForProducts api ccID ccName rest c1))"

fun budgetsLoop ::
  "'r api \<Rightarrow> (string \<rightharpoonup> string) \<Rightarrow> (string \<times> ProductBudget) list \<Rightarrow> (string \<times> bool) list
     \<Rightarrow> 'r Client \<Rightarrow> 'r Client" where
  "budgetsLoop api idToName products [] c = c"
| "budgetsLoop api idToName products ((ccID, created) # rest) c =
     (case budgetsForProducts api ccID (displayNameOf idToName ccID) products c of
        (budgetsDisabled, c1) \<Rightarrow>
          if budgetsDisabled then c1 else budgetsLoop api idToName products rest c1)"

definition createBudgetsForNewCCs ::
  "'r api \<Rightarrow> (string list \<Rightarrow> string list) \<Rightarrow> Manager \<Rightarrow> (string \<times> string) list
     \<Rightarrow> (string \<times> bool) list \<Rightarrow> 'r Client \<Rightarrow> 'r Client" where
  "createBudgetsForNewCCs api ord m ccMap newlyCreated c =
     (if length (budgetProducts m) = 0 then c
      else budgetsLoop api (reverseMap ord ccMap) (go_range ord (budgetProducts m))
             (go_range ord newlyCreated) c)"

text \<open>
  \<^verbatim>\<open>func (m *Manager) handleUserRemoval(expectedAssignments map[string][]string, ccNameToID map[string]string, newlyCreated map[string]bool) map[string]map[string]bool\<close>
\<close>

definition filterNewlyCreated ::
  "(string \<times> bool) list option \<Rightarrow> (string \<times> string list) list \<Rightarrow> (string \<times> string list) list" where
  "filterNewlyCreated newlyCreated visited =
     foldl (\<lambda>toCheck (ccID, users).
              if isNewlyCreated newlyCreated ccID then toCheck
              else AList.update ccID users toCheck) [] visited"

definition staleMembers :: "string list \<Rightarrow> string list \<Rightarrow> string list" where
  "staleMembers expectedUsers currentMembers =
     filter (\<lambda>member. member \<notin> set expectedUsers) currentMembers"

fun removalLoop ::
  "'r api \<Rightarrow> (string \<rightharpoonup> string) \<Rightarrow> (string \<times> string list) list
     \<Rightarrow> (string \<rightharpoonup> (string \<rightharpoonup> bool)) \<Rightarrow> Manager \<Rightarrow> 'r Client
     \<Rightarrow> (string \<rightharpoonup> (string \<rightharpoonup> bool)) \<times> Manager \<times> 'r Client" where
  "removalLoop api idToName [] results m c = (results, m, c)"
| "removalLoop api idToName ((ccID, expectedUsers) # rest) results m c =
     (case GetCostCenterMembers api ccID c of
        (Inl err, c1) \<Rightarrow> removalLoop api idToName rest results m c1
      | (Inr currentMembers, c1) \<Rightarrow>
          (let stale = staleMembers expectedUsers currentMembers in
           if length stale = 0 then removalLoop api idToName rest results m c1
           else
             (let displayName = displayNameOf idToName ccID;
                  sorted = sort stale;
                  m1 = m\<lparr>staleLog := staleLog m @ [(displayName, sorted)]\<rparr>
              in if removeUsers m then
                   (case RemoveUsersFromCostCenter api ccID sorted c1 of
                      ((removalStatus, err), c2) \<Rightarrow>
                        removalLoop api idToName rest (results(ccID \<mapsto> removalStatus)) m1 c2)
                 else removalLoop api idToName rest results m1 c1)))"

definition handleUserRemoval ::
  "'r api \<Rightarrow> (string list \<Rightarrow> string list) \<Rightarrow> (string \<times> string list) list
     \<Rightarrow> (string \<times> string) list \<Rightarrow> (string \<times> bool) list option \<Rightarrow> Manager \<Rightarrow> 'r Client
     \<Rightarrow> (string \<rightharpoonup> (string \<rightharpoonup> bool)) \<times> Manager \<times> 'r Client" where
  "handleUserRemoval api ord expectedAssignments ccNameToID newlyCreated m c =
     (let idToName = reverseMap ord ccNameToID;
          toCheck = filterNewlyCreated newlyCreated (go_range ord expectedAssignments)
      in removalLoop api idToName (go_range ord toCheck) Map.empty m c)"



text \<open>
  \<^verbatim>\<open>func (m *Manager) SyncTeamAssignments(mode string, ignoreCurrentCC bool) (map[string]map[string]bool, error)\<close>.
  The records it writes to the log go to \<open>syncLog\<close>; \<open>total_users\<close> is the sum of
  \<^verbatim>\<open>len(users)\<close> over the range of \<open>idBased\<close>, and the plan report ranges over
  \<open>idBased\<close> once more.
\<close>

text \<open>The user names of one cost center, each once, in the order of first appearance.\<close>

fun dedupUsers :: "UserAssignment list \<Rightarrow> string list \<Rightarrow> string list \<Rightarrow> string list" where
  "dedupUsers [] seen users = users"
| "dedupUsers (ua # rest) seen users =
     (if Username ua \<notin> set seen
      then dedupUsers rest (Username ua # seen) (users @ [Username ua])
      else dedupUsers rest seen users)"

definition toIdBased ::
  "(string \<times> string) list \<Rightarrow> (string \<times> UserAssignment list) list \<Rightarrow> (string \<times> string list) list" where
  "toIdBased ccMap visited =
     foldl (\<lambda>idBased (ccName, userAssigns).
              (let ccID = getOr [] (map_of ccMap) ccName
               in case dedupUsers userAssigns [] (getOr [] (map_of idBased) ccID) of
                    [] \<Rightarrow> idBased
                  | u # us \<Rightarrow> AList.update ccID (u # us) idBased))
       [] visited"

definition mergeRemoval ::
  "(string \<rightharpoonup> (string \<rightharpoonup> bool)) \<Rightarrow> (string \<rightharpoonup> (string \<rightharpoonup> bool))
     \<Rightarrow> (string \<rightharpoonup> (string \<rightharpoonup> bool))" where
  "mergeRemoval results removedResults =
     (\<lambda>ccID. case removedResults ccID of
                None \<Rightarrow> results ccID
              | Some userResults \<Rightarrow> Some (getOr Map.empty results ccID ++ userResults))"

definition SyncTeamAssignments ::
  "'r api \<Rightarrow> (string list \<Rightarrow> string list) \<Rightarrow> string \<Rightarrow> bool \<Rightarrow> Manager \<Rightarrow> 'r Client
     \<Rightarrow> (error + (string \<rightharpoonup> (string \<rightharpoonup> bool)) option) \<times> Manager \<times> 'r Client" where
  "SyncTeamAssignments api ord mode' ignoreCurrentCC m c =
     (case BuildTeamAssignments api ord m c of
        (Inl err, m1, c1) \<Rightarrow> (Inl err, m1, c1)
      | (Inr built, m1, c1) \<Rightarrow>
          (let assignments = (case built of None \<Rightarrow> [] | Some a \<Rightarrow> a) in
           if length assignments = 0 then (Inr None, logSync NoTeamAssignments m1, c1)
           else
             (let ccNames = sort (map fst (go_range ord assignments)) in
              case (if mode' = ''plan''
                    then ((identityMap ccNames, Some [], None),
                          logSync (WouldEnsure (length ccNames)) m1, c1)
                    else
                      (case EnsureCostCentersExist api m1 ccNames c1 of
                         ((ccMap, newlyCreated, err), c2) \<Rightarrow>
                           if err = None \<and> createBudgets m1
                              \<and> length (case newlyCreated of None \<Rightarrow> [] | Some nc \<Rightarrow> nc) > 0
                           then ((ccMap, newlyCreated, err), m1,
                                 createBudgetsForNewCCs api ord m1 ccMap
                                   (case newlyCreated of None \<Rightarrow> [] | Some nc \<Rightarrow> nc) c2)
                           else ((ccMap, newlyCreated, err), m1, c2))) of
                ((ccMap, newlyCreated, Some err), m2, c2) \<Rightarrow>
                  (Inl (Wrap ''ensuring cost centers exist'' err), m2, c2)
              | ((ccMap, newlyCreated, None), m2, c2) \<Rightarrow>
                  (let idBased = toIdBased ccMap (go_range ord assignments);
                       totalUsers = sum_list (map (\<lambda>(ccID, users). length users) (go_range ord idBased));
                       m3 = logSync (PreparedAssignments (length idBased) totalUsers) m2
                   in
                   if mode' = ''plan''
                   then (Inr None,
                         m3\<lparr>syncLog := syncLog m3 @ [WouldSync]
                              @ map (\<lambda>(ccID, users). WouldAssign ccID (length users))
                                  (go_range ord idBased)
                              @ (if removeUsers m3 then [FullSyncEnabled] else [])\<rparr>,
                         c2)
                   else
                     (case BulkUpdateCostCenterAssignments api ord idBased ignoreCurrentCC c2 of
                        ((results, Some err), c3) \<Rightarrow>
                          (Inl (Wrap ''applying team assignments'' err), logSync Syncing m3, c3)
                      | ((results, None), c3) \<Rightarrow>
                          (case handleUserRemoval api ord idBased ccMap newlyCreated
                                  (logSync CheckingStale (logSync Syncing m3)) c3 of
                             (removedResults, m4, c4) \<Rightarrow>
                               (Inr (Some (if removeUsers m3
                                           then mergeRemoval results removedResults
                                           else results)), m4, c4)))))))"

text \<open>\<^verbatim>\<open>func (m *Manager) GenerateSummary() (*Summary, error)\<close>\<close>

record Summary =
  Mode :: string
  Scope :: string
  Organizations :: "string list"
  TotalTeams :: nat
  TotalCCs :: nat
  UniqueUsers :: nat
  CostCenters :: "(string \<times> nat) list"

definition summarize ::
  "(string \<times> UserAssignment list) list \<Rightarrow> (string \<times> bool) list \<times> (string \<times> nat) list" where
  "summarize visited =
     foldl (\<lambda>(allUsers, ccBreakdown) (ccName, userAssigns).
              (foldl (\<lambda>users ua. AList.update (Username ua) True users) allUsers userAssigns,
               AList.update ccName (length userAssigns) ccBreakdown))
       ([], []) visited"

definition GenerateSummary ::
  "'r api \<Rightarrow> (string list \<Rightarrow> string list) \<Rightarrow> Manager \<Rightarrow> 'r Client
     \<Rightarrow> (error + Summary) \<times> Manager \<times> 'r Client" where
  "GenerateSummary api ord m c =
     (case BuildTeamAssignments api ord m c of
        (Inl err, m1, c1) \<Rightarrow> (Inl err, m1, c1)
      | (Inr built, m1, c1) \<Rightarrow>
          (let assignments = (case built of None \<Rightarrow> [] | Some a \<Rightarrow> a);
               totalTeams = sum_list (map (\<lambda>(k, teams). length teams) (go_range ord (teamsCache m1)))
           in case summarize (go_range ord assignments) of
                (allUsers, ccBreakdown) \<Rightarrow>
                  (Inr \<lparr>Mode = mode m1, Scope = scope m1, Organizations = orgs m1,
                        TotalTeams = totalTeams, TotalCCs = length assignments,
                        UniqueUsers = length allUsers, CostCenters = ccBreakdown\<rparr>,
                   m1, c1)))"

text \<open>The calls of the fetch step: the listings of teams and of team members.\<close>

fun isTeamFetch :: "event \<Rightarrow> bool" where
  "isTeamFetch (EvEnterpriseTeams r) = True"
| "isTeamFetch (EvOrgTeams org r) = True"
| "isTeamFetch (EvEnterpriseTeamMembers slug r) = True"
| "isTeamFetch (EvOrgTeamMembers org slug r) = True"
| "isTeamFetch (EvListCostCenters r) = False"
| "isTeamFetch (EvGetCostCenter ccID r) = False"
| "isTeamFetch (EvPostCostCenter name r) = False"
| "isTeamFetch (EvPostUsers ccID users r) = False"
| "isTeamFetch (EvDeleteUsers ccID users r) = False"
| "isTeamFetch (EvGetMemberships user r) = False"
| "isTeamFetch (EvCreateProductBudget ccID ccName product amount r) = False"

text \<open>
  From one client state to a later one, only team listings were called and nothing but
  the service state and the trace changed.
\<close>

definition fetchedOnly :: "'r Client \<Rightarrow> 'r Client \<Rightarrow> bool" where
  "fetchedOnly c c' \<longleftrightarrow>
     (\<exists>evs. trace c' = trace c @ evs \<and> (\<forall>e \<in> set evs. isTeamFetch e))
     \<and> ccCache c' = ccCache c"

section \<open>Inputs of the kernel-checked examples\<close>

text \<open>
  A service without state whose calls all succeed with empty answers, and variations of
  it; a manager as the unit tests build it; a client without cache.
\<close>

definition baseApi :: "unit api" where
  "baseApi =
     \<lparr>clock = (\<lambda>r. 1700000000 * 1000000000),
      cache_save = (\<lambda>d. None),
      list_cost_centers = (\<lambda>r. (Inr [], r)),
      get_cost_center = (\<lambda>id' r. (Inl (APIError 404 ''Not Found''), r)),
      post_cost_center = (\<lambda>name r. (Inr \<lparr>created_ID = ''id-'' @ name, created_Name = name\<rparr>, r)),
      post_users = (\<lambda>ccID users r. (None, r)),
      delete_users = (\<lambda>ccID users r. (None, r)),
      get_memberships = (\<lambda>user r. (Inr [], r)),
      api_GetEnterpriseTeams = (\<lambda>r. (Inr [], r)),
      api_GetOrgTeams = (\<lambda>org r. (Inr [], r)),
      api_GetEnterpriseTeamMembers = (\<lambda>slug r. (Inr [], r)),
      api_GetOrgTeamMembers = (\<lambda>org slug r. (Inr [], r)),
      api_CreateProductBudget = (\<lambda>ccID ccName product amount r. (Inr True, r))\<rparr>"

definition testManager :: Manager where
  "testManager =
     \<lparr>Enterprise = ''acme'', scope = ''organization'', mode = ''auto'', orgs = [],
      autoCreate = False, mappings = Map.empty, removeUsers = False, createBudgets = False,
      budgetProducts = [], teamsCache = [], membersCache = Map.empty,
      ccNameCache = Map.empty, staleLog = [], syncLog = []\<rparr>"

definition newClient :: "unit Client" where
  "newClient = \<lparr>remote = (), trace = [], ccCache = None\<rparr>"

definition conflictBody :: string where
  "conflictBody =
     ''Cost center already exists. Existing cost center UUID: 0f8fad5b-d9cb-469f-a165-70867728950e''"

definition conflictApi :: "unit api" where
  "conflictApi = baseApi\<lparr>post_cost_center := (\<lambda>name r. (Inl (APIError 409 conflictBody), r))\<rparr>"

definition teamA :: Team where
  "teamA = \<lparr>team_Name = ''team-a'', Slug = ''team-a''\<rparr>"

definition teamB :: Team where
  "teamB = \<lparr>team_Name = ''team-b'', Slug = ''team-b''\<rparr>"

definition orgApi :: "unit api" where
  "orgApi = baseApi
     \<lparr>api_GetOrgTeams := (\<lambda>org r. (Inr [teamA, teamB], r)),
      api_GetOrgTeamMembers := (\<lambda>org slug r.
         (Inr (if slug = ''team-a'' then [\<lparr>Login = ''alice''\<rparr>, \<lparr>Login = ''bob''\<rparr>]
               else [\<lparr>Login = ''bob''\<rparr>, \<lparr>Login = ''carol''\<rparr>]), r))\<rparr>"

definition orgManager :: Manager where
  "orgManager = testManager\<lparr>orgs := [''org1'']\<rparr>"


text \<open>A cost center whose remote members are alice, bob and dave.\<close>

definition staleDetail :: costCenterDetailResponse where
  "staleDetail =
     \<lparr>detail_ID = ''cc-X'', detail_Name = ''X'', detail_State = ''active'',
      Resources = [\<lparr>res_Type = ''User'', res_Name = ''alice''\<rparr>,
                   \<lparr>res_Type = ''User'', res_Name = ''bob''\<rparr>,
                   \<lparr>res_Type = ''User'', res_Name = ''dave''\<rparr>]\<rparr>"




text \<open>
  Ranging in the order of the list; an enterprise with one team (alice and bob) whose
  cost center has the remote members alice, bob and dave.
\<close>

definition listOrder :: "string list \<Rightarrow> string list" where
  "listOrder ks = ks"

definition devs :: Team where
  "devs = \<lparr>team_Name = ''Devs'', Slug = ''devs''\<rparr>"

definition entApi :: "unit api" where
  "entApi = baseApi
     \<lparr>get_cost_center := (\<lambda>id' r. (Inr staleDetail, r)),
      api_GetEnterpriseTeams := (\<lambda>r. (Inr [devs], r)),
      api_GetEnterpriseTeamMembers := (\<lambda>slug r. (Inr [\<lparr>Login = ''alice''\<rparr>, \<lparr>Login = ''bob''\<rparr>], r))\<rparr>"

definition entManager :: Manager where
  "entManager = testManager\<lparr>scope := ''enterprise''\<rparr>"

section \<open>Properties of the cache\<close>

lemma sint_time_Sub:
  "sint (time_Sub t u) = max (- 9223372036854775808) (min 9223372036854775807 (t - u))"
proof -
  define d where "d = t - u"
  have "sint (word_of_int d :: 64 word) = d"
    if "- 9223372036854775808 \<le> d" "d \<le> 9223372036854775807"
    using that by (simp add: sint_sbintrunc' signed_take_bit_int_eq_self)
  then show ?thesis
    unfolding time_Sub_def Let_def d_def [symmetric] maxDuration_def minDuration_def
    by (auto simp: min_def max_def)
qed

lemma sint_hours:
  assumes "\<bar>sint (h :: 64 word)\<bar> \<le> 2562047"
  shows "sint (h * Hour) = sint h * 3600000000000"
proof -
  have "sint (h * Hour) = signed_take_bit 63 (sint h * 3600000000000)"
    by (simp add: sint_word_ariths Hour_def)
  also have "\<dots> = sint h * 3600000000000"
    using assms by (intro signed_take_bit_int_eq_self) auto
  finally show ?thesis .
qed

lemma IsExpired_iff:
  assumes "\<bar>sint (TTLHours e)\<bar> \<le> 2562047"
  shows "IsExpired e now \<longleftrightarrow> sint (TTLHours e) * 3600000000000 < now - CachedAt e"
  using assms
  by (auto simp: IsExpired_def time_Since_def sint_time_Sub sint_hours Let_def min_def max_def)

text \<open>
  While the TTL of the entry, in nanoseconds, fits a 64-bit duration (between -2562047
  and 2562047 hours; \<open>Set\<close> writes the cache's TTL, 24 hours by default), \<open>Get\<close>
  returns the entry and true if and only if the entry exists and
  \<open>now - cachedAt \<le> ttlHours\<close> hours, and a zero entry and false otherwise. A \<open>Get\<close>
  after \<open>Set key id name\<close> within the window returns that id, a \<open>Get\<close> after the
  window returns false, and \<open>Get\<close> never changes the cache.
\<close>

lemma Cache_Get_valid_iff:
  "(Entries (data c) key = None \<longrightarrow> Cache_Get c now key = ((zeroEntry, False), c))
   \<and> (\<forall>e. Entries (data c) key = Some e \<and> \<bar>sint (TTLHours e)\<bar> \<le> 2562047 \<longrightarrow>
         Cache_Get c now key =
           (if now - CachedAt e \<le> sint (TTLHours e) * 3600000000000
            then ((e, True), c) else ((zeroEntry, False), c)))
   \<and> (\<bar>sint (ttlHours c)\<bar> \<le> 2562047 \<longrightarrow>
         fst (Cache_Get (snd (Cache_Set save c t0 key id' name)) now key) =
           (if now - t0 \<le> sint (ttlHours c) * 3600000000000
            then (\<lparr>ID = id', Name = name, CachedAt = t0, TTLHours = ttlHours c\<rparr>, True)
            else (zeroEntry, False)))
   \<and> snd (Cache_Get c now key) = c"
proof (intro conjI allI impI)
  show "Cache_Get c now key = ((zeroEntry, False), c)" if "Entries (data c) key = None"
    using that by (simp add: Cache_Get_def)
next
  fix e
  assume h: "Entries (data c) key = Some e \<and> \<bar>sint (TTLHours e)\<bar> \<le> 2562047"
  then have "IsExpired e now \<longleftrightarrow> sint (TTLHours e) * 3600000000000 < now - CachedAt e"
    by (simp add: IsExpired_iff)
  with h show "Cache_Get c now key =
      (if now - CachedAt e \<le> sint (TTLHours e) * 3600000000000
       then ((e, True), c) else ((zeroEntry, False), c))"
    by (auto simp: Cache_Get_def)
next
  let ?e = "\<lparr>ID = id', Name = name, CachedAt = t0, TTLHours = ttlHours c\<rparr>"
  assume h: "\<bar>sint (ttlHours c)\<bar> \<le> 2562047"
  then have "IsExpired ?e now \<longleftrightarrow> sint (ttlHours c) * 3600000000000 < now - t0"
    using IsExpired_iff [of ?e now] by simp
  then show "fst (Cache_Get (snd (Cache_Set save c t0 key id' name)) now key) =
      (if now - t0 \<le> sint (ttlHours c) * 3600000000000 then (?e, True)
       else (zeroEntry, False))"
    by (auto simp: Cache_Get_def Cache_Set_def Let_def)
next
  show "snd (Cache_Get c now key) = c"
    by (simp add: Cache_Get_def split: option.splits)
qed

text \<open>
  At concrete inputs: a default-TTL cache, \<open>Set\<close> at instant 0, then \<open>Get\<close> one hour
  later (a hit on \<open>id-X\<close>) and 25 hours later (a miss).
\<close>

lemma Cache_Get_default_ttl_example:
  "fst (Cache_Get (snd (Cache_Set (\<lambda>_. None) emptyCache 0 ''key'' ''id-X'' ''Name-X''))
          3600000000000 ''key'')
     = (\<lparr>ID = ''id-X'', Name = ''Name-X'', CachedAt = 0, TTLHours = 24\<rparr>, True)
   \<and> fst (Cache_Get (snd (Cache_Set (\<lambda>_. None) emptyCache 0 ''key'' ''id-X'' ''Name-X''))
          90000000000000 ''key'')
     = (zeroEntry, False)
   \<and> Cache_Get emptyCache 0 ''key'' = ((zeroEntry, False), emptyCache)"
  using
    Cache_Get_valid_iff [where c = emptyCache and key = "''key''" and save = "\<lambda>_. None"
      and ?t0.0 = 0 and id' = "''id-X''" and name = "''Name-X''" and now = 3600000000000]
    Cache_Get_valid_iff [where c = emptyCache and key = "''key''" and save = "\<lambda>_. None"
      and ?t0.0 = 0 and id' = "''id-X''" and name = "''Name-X''" and now = 90000000000000]
    Cache_Get_valid_iff [where c = emptyCache and key = "''key''" and now = 0]
  by (simp add: emptyCache_def DefaultTTLHours_def)

text \<open>
  Claim C7: \<open>Get\<close> returns the entry and true if and only if an entry for the key exists
  and \<open>now - cachedAt \<le> ttlHours\<close> hours. The code breaks this, and the documentation of
  \<^verbatim>\<open>IsExpired\<close> ("reports whether the entry has exceeded its TTL") and of \<^verbatim>\<open>Get\<close>
  ("true if a valid (non-expired) entry exists"), on an entry read from the cache file
  with \<^verbatim>\<open>"ttl_hours": 2562048\<close>: cached at this very instant, it is within its TTL
  (\<open>now - cachedAt = 0\<close>), but the 64-bit product \<open>TTLHours * Hour\<close> wraps around to a
  negative duration, \<open>IsExpired\<close> is true and \<open>Get\<close> reports a miss.
\<close>

theorem Cache_Get_long_ttl_reported_expired:
  "Entries (data longTTLCache) ''key'' = Some longTTLEntry
   \<and> (0::int) - CachedAt longTTLEntry \<le> sint (TTLHours longTTLEntry) * 3600000000000
   \<and> IsExpired longTTLEntry 0
   \<and> Cache_Get longTTLCache 0 ''key'' = ((zeroEntry, False), longTTLCache)"
  by (simp add: longTTLCache_def longTTLEntry_def Cache_Get_def IsExpired_def
      time_Since_def time_Sub_def Hour_def)

section \<open>Properties of the call layer\<close>


lemma readBody_length: "length (readBody resp) \<le> 4096"
  by (simp add: readBody_def split: http_body.splits option.splits)

lemma doJSON_loop_429:
  assumes "attempt < 3" "is429 (do_at env i)"
  shows "doJSON_loop env dest i attempt sl = doJSON_loop env dest (i + 1) attempt (sl @ [waitAt env i])"
proof -
  from assms(2) obtain resp where "do_at env i = DoResp resp" "StatusCode resp = 429"
    by (auto simp: is429_def split: do_result.splits)
  then show ?thesis
    using assms(1) by (subst doJSON_loop.simps) (simp add: waitAt_def maxRetries_def)
qed

lemma doJSON_loop_429s:
  assumes "attempt < 3" "\<forall>j<k. is429 (do_at env (i + j))"
  shows "doJSON_loop env dest i attempt sl =
           doJSON_loop env dest (i + k) attempt (sl @ map (waitAt env) [i..<i + k])"
  using assms(2)
proof (induction k)
  case 0
  then show ?case by simp
next
  case (Suc k)
  then have "doJSON_loop env dest i attempt sl =
           doJSON_loop env dest (i + k) attempt (sl @ map (waitAt env) [i..<i + k])"
    by simp
  also have "\<dots> = doJSON_loop env dest (i + k + 1) attempt
                     ((sl @ map (waitAt env) [i..<i + k]) @ [waitAt env (i + k)])"
    using Suc.prems assms(1) by (intro doJSON_loop_429) auto
  finally show ?case by simp
qed

lemma doJSON_loop_Some_not_forever:
  assumes "doJSON_loop env dest i attempt sl = Some out"
  shows "\<not> (attempt < 3 \<and> (\<forall>j\<ge>i. is429 (do_at env j)))"
proof (rule doJSON_loop.raw_induct
    [where P = "\<lambda>env dest i attempt sl out. \<not> (attempt < 3 \<and> (\<forall>j\<ge>i. is429 (do_at env j)))",
     OF _ assms], goal_cases)
  case (1 loop env dest i attempt sl out)
  show ?case
  proof
    assume h: "attempt < 3 \<and> (\<forall>j\<ge>i. is429 (do_at env j))"
    then have "is429 (do_at env i)" by simp
    then obtain resp where r: "do_at env i = DoResp resp" "StatusCode resp = 429"
      by (auto simp: is429_def split: do_result.splits)
    with h 1(2) have "loop env dest (i + 1) attempt
        (sl @ [RateLimitWait (rateLimitWait resp (now_at env i))]) = Some out"
      by (simp add: maxRetries_def)
    from 1(1) [OF this] h show False by auto
  qed
qed

lemma doJSON_loop_forever:
  assumes "\<forall>j\<ge>i. is429 (do_at env j)" "attempt < 3"
  shows "doJSON_loop env dest i attempt sl = None"
  using doJSON_loop_Some_not_forever [of env dest i attempt sl] assms
  by (cases "doJSON_loop env dest i attempt sl") auto

text \<open>One turn of the loop at a response that is not a 429.\<close>

lemma doJSON_loop_non429:
  assumes "\<not> is429 (do_at env i)" "attempt < 3"
  shows "(\<exists>out. doJSON_loop env dest i attempt sl = Some out)
       \<or> (attempt < 2 \<and> doJSON_loop env dest i attempt sl =
             doJSON_loop env dest (i + 1) (attempt + 1) (sl @ [Backoff (backoff attempt)]))"
  using assms
  by (subst (1 2) doJSON_loop.simps)
     (auto simp: is429_def maxRetries_def Let_def split: do_result.splits)

lemma doJSON_loop_returns:
  assumes fair: "\<forall>i. \<exists>j\<ge>i. \<not> is429 (do_at env j)"
  shows "\<exists>out. doJSON_loop env dest i attempt sl = Some out"
proof (induction "3 - attempt" arbitrary: i attempt sl rule: less_induct)
  case less
  show ?case
  proof (cases "attempt < 3")
    case False
    then show ?thesis by (subst doJSON_loop.simps) (simp add: maxRetries_def)
  next
    case True
    define j where "j = (LEAST j. i \<le> j \<and> \<not> is429 (do_at env j))"
    from fair have ex: "\<exists>j. i \<le> j \<and> \<not> is429 (do_at env j)" by blast
    then have j: "i \<le> j" "\<not> is429 (do_at env j)"
      unfolding j_def by (metis (mono_tags, lifting) LeastI_ex)+
    have before: "is429 (do_at env j')" if "i \<le> j'" "j' < j" for j'
      using that not_less_Least [of j' "\<lambda>j. i \<le> j \<and> \<not> is429 (do_at env j)"]
      unfolding j_def by blast
    define k where "k = j - i"
    have "\<forall>n<k. is429 (do_at env (i + n))"
      using before by (simp add: k_def)
    from doJSON_loop_429s [OF True this, of dest sl] j(1)
    have skip: "doJSON_loop env dest i attempt sl =
                 doJSON_loop env dest j attempt (sl @ map (waitAt env) [i..<j])"
      by (simp add: k_def)
    from doJSON_loop_non429 [OF j(2) True, of dest "sl @ map (waitAt env) [i..<j]"]
    show ?thesis
    proof
      assume "\<exists>out. doJSON_loop env dest j attempt (sl @ map (waitAt env) [i..<j]) = Some out"
      with skip show ?thesis by simp
    next
      assume a: "attempt < 2 \<and> doJSON_loop env dest j attempt (sl @ map (waitAt env) [i..<j]) =
         doJSON_loop env dest (j + 1) (attempt + 1)
           ((sl @ map (waitAt env) [i..<j]) @ [Backoff (backoff attempt)])"
      have "3 - (attempt + 1) < 3 - attempt" using True by simp
      from less [OF this] a skip show ?thesis by metis
    qed
  qed
qed


lemma backoffs_append [simp]: "backoffs (xs @ ys) = backoffs xs @ backoffs ys"
  by (simp add: backoffs_def)

lemma backoffs_simps [simp]:
  "backoffs [] = []" "backoffs [Backoff d] = [d]" "backoffs [RateLimitWait d] = []"
  by (simp_all add: backoffs_def)

lemma rateLimitWaits_append [simp]:
  "rateLimitWaits (xs @ ys) = rateLimitWaits xs @ rateLimitWaits ys"
  by (simp add: rateLimitWaits_def)

lemma rateLimitWaits_simps [simp]:
  "rateLimitWaits [] = []" "rateLimitWaits [Backoff d] = []" "rateLimitWaits [RateLimitWait d] = [d]"
  by (simp_all add: rateLimitWaits_def)

lemma length_sleeps: "length sl = length (backoffs sl) + length (rateLimitWaits sl)"
  by (induction sl) (auto simp: backoffs_def rateLimitWaits_def split: sleep.splits)

lemma backoff_eq: "backoff attempt = Second * 2 ^ attempt"
  by (simp add: backoff_def retryBackoffBase_def)

lemma doJSON_loop_retry:
  assumes "attempt < 2" "retryable (do_at env i)"
  shows "doJSON_loop env dest i attempt sl =
           doJSON_loop env dest (i + 1) (attempt + 1) (sl @ [Backoff (Second * 2 ^ attempt)])"
  using assms
  by (subst doJSON_loop.simps)
     (auto simp: retryable_def maxRetries_def retryableStatusCodes_def backoff_eq
           split: do_result.splits)

lemma doJSON_loop_last_attempt:
  assumes "attempt = 2" "retryable (do_at env i)"
  shows "doJSON_loop env dest i attempt sl =
           Some \<lparr>ret = (case do_at env i of
                          DoErr err \<Rightarrow> (None, Some (Err err))
                        | DoResp resp \<Rightarrow>
                            (Some resp, Some (APIError (StatusCode resp) (readBody resp)))),
                 calls = i + 1, sleeps = sl\<rparr>"
  using assms
  by (subst doJSON_loop.simps)
     (auto simp: retryable_def maxRetries_def retryableStatusCodes_def
           split: do_result.splits)

lemma doJSON_loop_terminal:
  assumes "attempt < 3" "do_at env i = DoResp resp"
    "\<not> (200 \<le> StatusCode resp \<and> StatusCode resp < 300)"
    "StatusCode resp \<notin> {429, 500, 502, 503, 504}"
  shows "doJSON_loop env dest i attempt sl =
           Some \<lparr>ret = (Some resp, Some (APIError (StatusCode resp) (readBody resp))),
                 calls = i + 1, sleeps = sl\<rparr>"
  using assms
  by (subst doJSON_loop.simps)
     (auto simp: maxRetries_def retryableStatusCodes_def)

lemma doJSON_loop_budget:
  assumes "doJSON_loop env dest i attempt sl = Some out"
  shows "attempt \<le> 2 \<and> length sl = i \<and> backoffs sl = map (\<lambda>a. Second * 2 ^ a) [0..<attempt]
         \<longrightarrow> budget_ok out"
proof (rule doJSON_loop.raw_induct
    [where P = "\<lambda>env dest i attempt sl out.
        attempt \<le> 2 \<and> length sl = i \<and> backoffs sl = map (\<lambda>a. Second * 2 ^ a) [0..<attempt]
         \<longrightarrow> budget_ok out",
     OF _ assms], goal_cases)
  case (1 loop env dest i attempt sl out)
  show ?case
  proof
    assume inv: "attempt \<le> 2 \<and> length sl = i
                 \<and> backoffs sl = map (\<lambda>a. Second * 2 ^ a) [0..<attempt]"
    then have here: "\<exists>k\<le>2. backoffs sl = map (\<lambda>a. Second * 2 ^ a) [0..<k]"
      by blast
    have next_inv: "attempt + 1 \<le> 2 \<and> length (sl @ [Backoff (backoff attempt)]) = i + 1
         \<and> backoffs (sl @ [Backoff (backoff attempt)]) = map (\<lambda>a. Second * 2 ^ a) [0..<attempt + 1]"
      if "attempt < 2"
      using inv that by (simp add: backoff_eq)
    have same_inv: "attempt \<le> 2 \<and> length (sl @ [RateLimitWait d]) = i + 1
         \<and> backoffs (sl @ [RateLimitWait d]) = map (\<lambda>a. Second * 2 ^ a) [0..<attempt]" for d
      using inv by simp
    have lt: "attempt < maxRetries" using inv by (simp add: maxRetries_def)
    show "budget_ok out"
    proof (cases "do_at env i")
      case (DoErr err)
      show ?thesis
      proof (cases "isTransient err \<and> attempt < maxRetries - 1")
        case True
        with 1(2) lt DoErr have "loop env dest (i + 1) (attempt + 1)
              (sl @ [Backoff (backoff attempt)]) = Some out"
          by simp
        from 1(1) [OF this] next_inv True show ?thesis
          by (simp add: maxRetries_def)
      next
        case False
        with 1(2) lt DoErr have "out = \<lparr>ret = (None, Some (Err err)), calls = i + 1, sleeps = sl\<rparr>"
          by auto
        with inv here show ?thesis by (simp add: budget_ok_def)
      qed
    next
      case (DoResp resp)
      consider (ok) "200 \<le> StatusCode resp \<and> StatusCode resp < 300"
        | (rl) "\<not> (200 \<le> StatusCode resp \<and> StatusCode resp < 300)" "StatusCode resp = 429"
        | (retry) "\<not> (200 \<le> StatusCode resp \<and> StatusCode resp < 300)" "StatusCode resp \<noteq> 429"
            "retryableStatusCodes (StatusCode resp) \<and> attempt < maxRetries - 1"
        | (final) "\<not> (200 \<le> StatusCode resp \<and> StatusCode resp < 300)" "StatusCode resp \<noteq> 429"
            "\<not> (retryableStatusCodes (StatusCode resp) \<and> attempt < maxRetries - 1)"
        by blast
      then show ?thesis
      proof cases
        case ok
        with 1(2) lt DoResp have "sleeps out = sl \<and> calls out = i + 1
            \<and> (snd (ret out) = None \<or> snd (ret out) = Some (Wrap ''decoding response'' (Err ''json'')))"
          by (auto split: if_splits)
        with inv here show ?thesis by (auto simp: budget_ok_def)
      next
        case rl
        with 1(2) lt DoResp have "loop env dest (i + 1) attempt
              (sl @ [RateLimitWait (rateLimitWait resp (now_at env i))]) = Some out"
          by simp
        from 1(1) [OF this] same_inv show ?thesis by simp
      next
        case retry
        with 1(2) lt DoResp have "loop env dest (i + 1) (attempt + 1)
              (sl @ [Backoff (backoff attempt)]) = Some out"
          by simp
        from 1(1) [OF this] next_inv retry show ?thesis
          by (simp add: maxRetries_def)
      next
        case final
        with 1(2) lt DoResp have "out = \<lparr>ret = (Some resp, Some (APIError (StatusCode resp) (readBody resp))),
              calls = i + 1, sleeps = sl\<rparr>"
          by auto
        with inv here show ?thesis by (simp add: budget_ok_def readBody_length)
      qed
    qed
  qed
qed

lemma rateLimitWait_fallback:
  assumes "ParseInt64 (RateLimitReset resp) = None"
  shows "rateLimitWait resp now = 60 * Second"
  using assms by (simp add: rateLimitWait_def rateLimitFallback_def Let_def)

lemma rateLimitWait_reset:
  assumes "ParseInt64 (RateLimitReset resp) = Some r"
    and "- 9223372036854775808 \<le> r * 1000000000 - now"
    and "r * 1000000000 - now + 1000000000 \<le> 9223372036854775807"
  shows "sint (rateLimitWait resp now) =
           (if now < r * 1000000000 + 1000000000 then r * 1000000000 + 1000000000 - now
            else 1000000000)"
proof -
  have ne: "RateLimitReset resp \<noteq> []"
    using assms(1) by (auto simp: ParseInt64_def)
  have "sint (time_Until now (time_Unix r)) = r * 1000000000 - now"
    using assms(2,3) by (simp add: time_Until_def time_Unix_def sint_time_Sub)
  then have "sint (time_Until now (time_Unix r) + Second) = r * 1000000000 - now + 1000000000"
    using assms(2,3)
    by (simp add: sint_word_ariths Second_def signed_take_bit_int_eq_self)
  then show ?thesis
    using ne assms(1) by (simp add: rateLimitWait_def Let_def Second_def)
qed

text \<open>
  Claim C5, as stated, fails: for a 429 response whose reset header is an instant already
  past (reset = 100 s, clock = 200 s), the call layer does not sleep until reset + 1 s
  (the instant 101 s); \<open>rateLimitWait\<close> returns one second, and the call layer wakes
  at 201 s.
\<close>

theorem rateLimitWait_past_reset_counterexample:
  "StatusCode pastResetResp = 429
   \<and> ParseInt64 (RateLimitReset pastResetResp) = Some 100
   \<and> sint (rateLimitWait pastResetResp (200 * 1000000000)) = 1000000000
   \<and> (200 * 1000000000 :: int) + sint (rateLimitWait pastResetResp (200 * 1000000000))
       \<noteq> (100 + 1) * 1000000000"
  by (simp add: pastResetResp_def rateLimitWait_def ParseInt64_def isDigit_def digitsValue_def
      time_Until_def time_Unix_def time_Sub_def Second_def)

text \<open>
  Claim C5, amended: for every request, a 429 response makes the call layer sleep and
  retry without incrementing the attempt counter. The sleep is the fixed 60 seconds when
  the reset header is absent or not parseable; when it is parseable (and the distance from
  the clock to the reset fits a 64-bit duration), the sleep ends at reset + 1 s if that
  instant is still ahead of the clock, and lasts one second otherwise. Any number of
  consecutive 429 responses leaves the attempt counter as it was; the loop never returns
  while only 429 responses arrive, and it returns when other outcomes keep arriving.
\<close>

theorem doJSON_rate_limit:
  assumes "attempt < 3" and "do_at env i = DoResp resp" and "StatusCode resp = 429"
  shows "doJSON_loop env dest i attempt sl =
           doJSON_loop env dest (i + 1) attempt
             (sl @ [RateLimitWait (rateLimitWait resp (now_at env i))])
     \<and> (ParseInt64 (RateLimitReset resp) = None \<longrightarrow>
          rateLimitWait resp (now_at env i) = 60 * Second)
     \<and> (\<forall>r. ParseInt64 (RateLimitReset resp) = Some r
              \<and> - 9223372036854775808 \<le> r * 1000000000 - now_at env i
              \<and> r * 1000000000 - now_at env i + 1000000000 \<le> 9223372036854775807 \<longrightarrow>
          now_at env i + sint (rateLimitWait resp (now_at env i)) =
            (if now_at env i < r * 1000000000 + 1000000000
             then r * 1000000000 + 1000000000
             else now_at env i + 1000000000))
     \<and> (\<forall>k. (\<forall>j<k. is429 (do_at env (i + j))) \<longrightarrow>
          doJSON_loop env dest i attempt sl =
            doJSON_loop env dest (i + k) attempt (sl @ map (waitAt env) [i..<i + k]))
     \<and> ((\<forall>j\<ge>i. is429 (do_at env j)) \<longrightarrow> doJSON_loop env dest i attempt sl = None)
     \<and> ((\<forall>n. \<exists>j\<ge>n. \<not> is429 (do_at env j)) \<longrightarrow>
          (\<exists>out. doJSON_loop env dest i attempt sl = Some out))"
proof (intro conjI allI impI)
  have "is429 (do_at env i)"
    using assms by (simp add: is429_def)
  from doJSON_loop_429 [OF assms(1) this, of dest sl] assms(2)
  show "doJSON_loop env dest i attempt sl =
          doJSON_loop env dest (i + 1) attempt
            (sl @ [RateLimitWait (rateLimitWait resp (now_at env i))])"
    by (simp add: waitAt_def)
next
  assume "ParseInt64 (RateLimitReset resp) = None"
  then show "rateLimitWait resp (now_at env i) = 60 * Second"
    by (rule rateLimitWait_fallback)
next
  fix r
  assume "ParseInt64 (RateLimitReset resp) = Some r
     \<and> - 9223372036854775808 \<le> r * 1000000000 - now_at env i
     \<and> r * 1000000000 - now_at env i + 1000000000 \<le> 9223372036854775807"
  then have "sint (rateLimitWait resp (now_at env i)) =
      (if now_at env i < r * 1000000000 + 1000000000
       then r * 1000000000 + 1000000000 - now_at env i else 1000000000)"
    by (intro rateLimitWait_reset) auto
  then show "now_at env i + sint (rateLimitWait resp (now_at env i)) =
      (if now_at env i < r * 1000000000 + 1000000000
       then r * 1000000000 + 1000000000 else now_at env i + 1000000000)"
    by simp
next
  fix k
  assume "\<forall>j<k. is429 (do_at env (i + j))"
  then show "doJSON_loop env dest i attempt sl =
      doJSON_loop env dest (i + k) attempt (sl @ map (waitAt env) [i..<i + k])"
    using assms(1) by (intro doJSON_loop_429s) auto
next
  assume "\<forall>j\<ge>i. is429 (do_at env j)"
  then show "doJSON_loop env dest i attempt sl = None"
    using assms(1) by (intro doJSON_loop_forever) auto
next
  assume "\<forall>n. \<exists>j\<ge>n. \<not> is429 (do_at env j)"
  then show "\<exists>out. doJSON_loop env dest i attempt sl = Some out"
    by (rule doJSON_loop_returns)
qed

text \<open>
  The amended claim on a run: a 429 with a reset two seconds ahead (sleep of three
  seconds), a 429 without the header (sleep of 60 seconds), then a 200; the request
  succeeds at the third call and no attempt of the budget was used.
\<close>

theorem doJSON_rate_limit_witness:
  "doJSON rateLimitedEnv False =
     Some \<lparr>ret = (Some okResp, None), calls = 3,
           sleeps = [RateLimitWait (3 * Second), RateLimitWait (60 * Second)]\<rparr>
   \<and> 1700000000 * 1000000000 + sint (rateLimitWait futureResetResp (1700000000 * 1000000000))
       = (1700000002 + 1) * (1000000000 :: int)"
proof -
  have p: "ParseInt64 ''1700000002'' = Some 1700000002"
    by (simp add: ParseInt64_def isDigit_def digitsValue_def)
  have w1: "rateLimitWait futureResetResp 1700000000000000000 = 3000000000"
    by (simp add: futureResetResp_def rateLimitWait_def p time_Until_def time_Unix_def
        time_Sub_def Second_def)
  have w2: "rateLimitWait noResetResp t = 60 * Second" for t
    by (simp add: noResetResp_def rateLimitWait_def rateLimitFallback_def)
  have a: "(0::nat) < 3" "do_at rateLimitedEnv 0 = DoResp futureResetResp"
    "StatusCode futureResetResp = 429"
    by (simp_all add: rateLimitedEnv_def futureResetResp_def)
  have b: "do_at rateLimitedEnv (Suc 0) = DoResp noResetResp" "StatusCode noResetResp = 429"
    by (simp_all add: rateLimitedEnv_def noResetResp_def)
  have n: "now_at rateLimitedEnv 0 = 1700000000 * 1000000000"
    by (simp add: rateLimitedEnv_def)
  have pf: "ParseInt64 (RateLimitReset futureResetResp) = Some 1700000002"
    by (simp add: futureResetResp_def p)
  have s1: "doJSON_loop rateLimitedEnv False 0 0 [] =
            doJSON_loop rateLimitedEnv False (Suc 0) 0 [RateLimitWait (3 * Second)]"
    using doJSON_rate_limit [OF a, of False "[]", THEN conjunct1] by (simp add: n w1 Second_def)
  have s2: "doJSON_loop rateLimitedEnv False (Suc 0) 0 [RateLimitWait (3 * Second)] =
            doJSON_loop rateLimitedEnv False (Suc (Suc 0)) 0
              [RateLimitWait (3 * Second), RateLimitWait (60 * Second)]"
    using doJSON_rate_limit [OF a(1) b, of False "[RateLimitWait (3 * Second)]", THEN conjunct1]
    by (simp add: w2 Second_def)
  have s3: "doJSON_loop rateLimitedEnv False (Suc (Suc 0)) 0
              [RateLimitWait (3 * Second), RateLimitWait (60 * Second)] =
            Some \<lparr>ret = (Some okResp, None), calls = 3,
                  sleeps = [RateLimitWait (3 * Second), RateLimitWait (60 * Second)]\<rparr>"
    by (subst doJSON_loop.simps) (simp add: rateLimitedEnv_def okResp_def maxRetries_def)
  have wake: "1700000000 * 1000000000
       + sint (rateLimitWait futureResetResp (1700000000 * 1000000000))
       = (1700000002 + 1) * (1000000000 :: int)"
    using doJSON_rate_limit [OF a, of False "[]", THEN conjunct2, THEN conjunct2, THEN conjunct1,
        rule_format, of 1700000002]
    by (simp add: n pf)
  from s1 s2 s3 wake show ?thesis
    by (simp add: doJSON_def)
qed

text \<open>
  The retry budget on the outcomes that the code retries: a status in {500, 502, 503, 504}
  or an error that \<open>isTransient\<close> accepts is retried after a sleep of 1 s times 2 to the
  attempt number while fewer than two attempts have failed, and returned at the third
  attempt; any other status outside 2xx (429 apart) is returned at once as an \<open>APIError\<close>
  whose body is at most 4096 bytes long. Whenever \<open>doJSON\<close> returns, at most three calls
  were not answered by a 429, and the backoff sleeps were 1 s, 2 s in this order.
\<close>

lemma doJSON_retry_budget:
  "(attempt < 2 \<and> retryable (do_at env i) \<longrightarrow>
      doJSON_loop env dest i attempt sl =
        doJSON_loop env dest (i + 1) (attempt + 1) (sl @ [Backoff (Second * 2 ^ attempt)]))
   \<and> (attempt = 2 \<and> retryable (do_at env i) \<longrightarrow>
        doJSON_loop env dest i attempt sl =
          Some \<lparr>ret = (case do_at env i of
                         DoErr err \<Rightarrow> (None, Some (Err err))
                       | DoResp resp \<Rightarrow>
                           (Some resp, Some (APIError (StatusCode resp) (readBody resp)))),
                calls = i + 1, sleeps = sl\<rparr>)
   \<and> (attempt < 3 \<and> do_at env i = DoResp resp
        \<and> \<not> (200 \<le> StatusCode resp \<and> StatusCode resp < 300)
        \<and> StatusCode resp \<notin> {429, 500, 502, 503, 504} \<longrightarrow>
        doJSON_loop env dest i attempt sl =
          Some \<lparr>ret = (Some resp, Some (APIError (StatusCode resp) (readBody resp))),
                calls = i + 1, sleeps = sl\<rparr>
        \<and> length (readBody resp) \<le> 4096)
   \<and> (doJSON env dest = Some out \<longrightarrow>
        budget_ok out \<and> calls out \<le> length (rateLimitWaits (sleeps out)) + 3)"
proof (intro conjI impI)
  assume "attempt < 2 \<and> retryable (do_at env i)"
  then show "doJSON_loop env dest i attempt sl =
      doJSON_loop env dest (i + 1) (attempt + 1) (sl @ [Backoff (Second * 2 ^ attempt)])"
    by (intro doJSON_loop_retry) auto
next
  assume "attempt = 2 \<and> retryable (do_at env i)"
  then show "doJSON_loop env dest i attempt sl =
      Some \<lparr>ret = (case do_at env i of
                     DoErr err \<Rightarrow> (None, Some (Err err))
                   | DoResp resp \<Rightarrow>
                       (Some resp, Some (APIError (StatusCode resp) (readBody resp)))),
            calls = i + 1, sleeps = sl\<rparr>"
    by (intro doJSON_loop_last_attempt) auto
next
  assume "attempt < 3 \<and> do_at env i = DoResp resp
        \<and> \<not> (200 \<le> StatusCode resp \<and> StatusCode resp < 300)
        \<and> StatusCode resp \<notin> {429, 500, 502, 503, 504}"
  then show "doJSON_loop env dest i attempt sl =
      Some \<lparr>ret = (Some resp, Some (APIError (StatusCode resp) (readBody resp))),
            calls = i + 1, sleeps = sl\<rparr>"
    by (intro doJSON_loop_terminal) auto
next
  show "length (readBody resp) \<le> 4096"
    by (rule readBody_length)
next
  assume "doJSON env dest = Some out"
  then show ok: "budget_ok out"
    using doJSON_loop_budget [of env dest 0 0 "[]" out] by (simp add: doJSON_def)
  then obtain k where "k \<le> 2" "backoffs (sleeps out) = map (\<lambda>a. Second * 2 ^ a) [0..<k]"
    and "calls out = length (sleeps out) + 1"
    by (auto simp: budget_ok_def)
  then show "calls out \<le> length (rateLimitWaits (sleeps out)) + 3"
    using length_sleeps [of "sleeps out"] by simp
qed

text \<open>
  On a run: a 503 (sleep 1 s), a connection reset (sleep 2 s), then a 404, which is
  returned at once with its body; and a 503 at the third attempt is returned as it is.
\<close>

lemma doJSON_retry_budget_example:
  "doJSON flakyEnv True =
     Some \<lparr>ret = (Some notFoundResp, Some (APIError 404 ''Not Found'')), calls = 3,
           sleeps = [Backoff Second, Backoff (2 * Second)]\<rparr>
   \<and> doJSON_loop flakyEnv True 0 2 [] =
     Some \<lparr>ret = (Some unavailableResp, Some (APIError 503 ''busy'')), calls = 1, sleeps = []\<rparr>
   \<and> budget_ok \<lparr>ret = (Some notFoundResp, Some (APIError 404 ''Not Found'')), calls = 3,
           sleeps = [Backoff Second, Backoff (2 * Second)]\<rparr>"
proof -
  have r0: "retryable (do_at flakyEnv 0)"
    by (simp add: flakyEnv_def retryable_def unavailableResp_def)
  have r1: "retryable (do_at flakyEnv (Suc 0))"
    by (simp add: flakyEnv_def retryable_def isTransient_def)
  have d0: "do_at flakyEnv 0 = DoResp unavailableResp"
    by (simp add: flakyEnv_def)
  have d2: "do_at flakyEnv (Suc (Suc 0)) = DoResp notFoundResp"
    by (simp add: flakyEnv_def)
  have rb: "readBody notFoundResp = ''Not Found''" "readBody unavailableResp = ''busy''"
    "StatusCode notFoundResp = 404" "StatusCode unavailableResp = 503"
    by (simp_all add: readBody_def notFoundResp_def unavailableResp_def)
  have t1: "doJSON_loop flakyEnv True 0 0 [] =
            doJSON_loop flakyEnv True (Suc 0) (Suc 0) [Backoff Second]"
    using doJSON_retry_budget [where attempt = 0 and env = flakyEnv and i = 0 and dest = True
        and sl = "[]", THEN conjunct1]
    by (simp add: r0)
  have t2: "doJSON_loop flakyEnv True (Suc 0) (Suc 0) [Backoff Second] =
            doJSON_loop flakyEnv True (Suc (Suc 0)) (Suc (Suc 0))
              [Backoff Second, Backoff (2 * Second)]"
    using doJSON_retry_budget [where attempt = "Suc 0" and env = flakyEnv and i = "Suc 0"
        and dest = True and sl = "[Backoff Second]", THEN conjunct1]
    by (simp add: r1 Second_def)
  have t3: "doJSON_loop flakyEnv True (Suc (Suc 0)) (Suc (Suc 0))
              [Backoff Second, Backoff (2 * Second)] =
            Some \<lparr>ret = (Some notFoundResp, Some (APIError 404 ''Not Found'')), calls = 3,
                  sleeps = [Backoff Second, Backoff (2 * Second)]\<rparr>"
    using doJSON_retry_budget [where attempt = "Suc (Suc 0)" and env = flakyEnv
        and i = "Suc (Suc 0)" and dest = True and resp = notFoundResp
        and sl = "[Backoff Second, Backoff (2 * Second)]",
        THEN conjunct2, THEN conjunct2, THEN conjunct1]
    by (simp add: d2 rb)
  have e: "doJSON flakyEnv True =
     Some \<lparr>ret = (Some notFoundResp, Some (APIError 404 ''Not Found'')), calls = 3,
           sleeps = [Backoff Second, Backoff (2 * Second)]\<rparr>"
    using t1 t2 t3 by (simp add: doJSON_def)
  moreover have "doJSON_loop flakyEnv True 0 2 [] =
     Some \<lparr>ret = (Some unavailableResp, Some (APIError 503 ''busy'')), calls = 1, sleeps = []\<rparr>"
    using doJSON_retry_budget [where attempt = 2 and env = flakyEnv and i = 0 and dest = True
        and sl = "[]", THEN conjunct2, THEN conjunct1] r0
    by (simp add: d0 rb)
  moreover have "budget_ok \<lparr>ret = (Some notFoundResp, Some (APIError 404 ''Not Found'')),
      calls = 3, sleeps = [Backoff Second, Backoff (2 * Second)]\<rparr>"
    using doJSON_retry_budget [where env = flakyEnv and dest = True and out =
        "\<lparr>ret = (Some notFoundResp, Some (APIError 404 ''Not Found'')), calls = 3,
           sleeps = [Backoff Second, Backoff (2 * Second)]\<rparr>"] e
    by simp
  ultimately show ?thesis by simp
qed

text \<open>
  Claim C6: responses with a status in {500, 502, 503, 504} and transient network errors
  are retried under a budget of three attempts with a backoff of 1 s times 2 to the
  attempt number, and any other status outside 2xx is returned at once as an \<open>APIError\<close>
  with at most 4096 bytes of the body. The code breaks this for timeouts, which the
  documentation of \<^verbatim>\<open>isTransient\<close> counts among the transient errors ("connection
  refused, timeouts, etc."): a dial that times out is taken as transient, but the error
  of the client's own 30-second timeout and a read that timed out contain none of the
  five substrings that \<open>isTransient\<close> looks for, so \<open>doJSON\<close> returns the timeout at the
  first attempt, without a sleep and without the second call, which would have succeeded.
\<close>

theorem doJSON_timeout_not_retried:
  "isTransient dialTimeoutError
   \<and> \<not> isTransient clientTimeoutError
   \<and> \<not> isTransient connectionTimedOutError
   \<and> do_at clientTimeoutEnv 1 = DoResp okResp
   \<and> doJSON clientTimeoutEnv True =
       Some \<lparr>ret = (None, Some (Err clientTimeoutError)), calls = 1, sleeps = []\<rparr>"
proof -
  have n: "\<not> isTransient clientTimeoutError" "\<not> isTransient connectionTimedOutError"
    by (simp_all add: isTransient_def clientTimeoutError_def connectionTimedOutError_def
        requestURL_def)
  have d: "isTransient dialTimeoutError"
    by (simp add: isTransient_def dialTimeoutError_def requestURL_def)
  have "doJSON_loop clientTimeoutEnv True 0 0 [] =
       Some \<lparr>ret = (None, Some (Err clientTimeoutError)), calls = 1, sleeps = []\<rparr>"
    by (subst doJSON_loop.simps) (simp add: clientTimeoutEnv_def maxRetries_def n)
  with n d show ?thesis by (simp add: doJSON_def clientTimeoutEnv_def)
qed
section \<open>Properties of the cost center client\<close>
















section \<open>Properties of the teams manager\<close>

subsection \<open>Ranging over a map\<close>

lemma mset_map_filter_cong:
  "mset xs = mset ys \<Longrightarrow> mset (List.map_filter f xs) = mset (List.map_filter f ys)"
  by (simp add: List.map_filter_def)

lemma map_filter_agree:
  "(\<And>x. x \<in> set xs \<Longrightarrow> f x = g x) \<Longrightarrow> List.map_filter f xs = List.map_filter g xs"
  by (induction xs) (auto simp: List.map_filter_simps split: option.splits)

lemma map_filter_keys:
  "distinct (map fst m) \<Longrightarrow>
     List.map_filter (\<lambda>k. map_option (Pair k) (map_of m k)) (map fst m) = m"
proof (induction m)
  case Nil
  then show ?case by (simp add: List.map_filter_simps)
next
  case (Cons p m)
  obtain k v where p: "p = (k, v)" by (cases p)
  from Cons.prems p have k: "k \<notin> fst ` set m" and d: "distinct (map fst m)" by auto
  have "List.map_filter (\<lambda>k'. map_option (Pair k') (map_of ((k, v) # m) k')) (map fst m)
      = List.map_filter (\<lambda>k'. map_option (Pair k') (map_of m k')) (map fst m)"
    using k by (intro map_filter_agree) auto
  then show ?case
    using Cons.IH [OF d] p by (simp add: List.map_filter_simps)
qed

lemma mset_go_range:
  assumes "range_order ord" "distinct (map fst m)"
  shows "mset (go_range ord m) = mset m"
proof -
  have "mset (ord (map fst m)) = mset (map fst m)"
    using assms(1) by (simp add: range_order_def)
  then have "mset (go_range ord m) =
      mset (List.map_filter (\<lambda>k. map_option (Pair k) (map_of m k)) (map fst m))"
    unfolding go_range_def by (rule mset_map_filter_cong)
  then show ?thesis using assms(2) by (simp add: map_filter_keys)
qed

lemma set_go_range:
  assumes "range_order ord" "distinct (map fst m)"
  shows "set (go_range ord m) = set m"
  using mset_go_range [OF assms] by (metis set_mset_mset)

lemma distinct_go_range:
  assumes "range_order ord" "distinct (map fst m)"
  shows "distinct (map fst (go_range ord m))"
proof -
  have "mset (map fst (go_range ord m)) = mset (map fst m)"
    using mset_go_range [OF assms] by (metis mset_map)
  then show ?thesis using assms(2) by (metis mset_eq_imp_distinct_iff)
qed

subsection \<open>The final assignment of every user\<close>

lemma assignMembers_fst:
  "map_of (fst (assignMembers ccName org team key members acc)) u =
     (if u \<in> set members
      then Some \<lparr>Username = u, CostCenter = ccName, Org = org, TeamSlug = Slug team\<rparr>
      else map_of (fst acc) u)"
proof (induction members arbitrary: acc)
  case Nil
  then show ?case by (cases acc) simp
next
  case (Cons v members)
  obtain uf utm where acc: "acc = (uf, utm)" by (cases acc)
  show ?case
    unfolding acc by (simp add: Cons.IH update_conv')
qed

lemma assignMembers_distinct:
  "distinct (map fst (fst acc)) \<Longrightarrow>
     distinct (map fst (fst (assignMembers ccName org team key members acc)))"
proof (induction members arbitrary: acc)
  case Nil
  then show ?case by (cases acc) simp
next
  case (Cons v members)
  obtain uf utm where acc: "acc = (uf, utm)" by (cases acc)
  show ?case
    unfolding acc using Cons.prems by (simp add: Cons.IH acc distinct_update)
qed

lemma find_append:
  "List.find P (xs @ ys) = (case List.find P xs of None \<Rightarrow> List.find P ys | Some x \<Rightarrow> Some x)"
  by (induction xs) auto

lemma lastGroupOf_Cons:
  "lastGroupOf u (g # groups) =
     (case lastGroupOf u groups of
        Some g' \<Rightarrow> Some g'
      | None \<Rightarrow> if u \<in> set (snd (snd (snd g))) then Some g else None)"
  by (cases g) (auto simp: lastGroupOf_def find_append split: option.splits)

lemma processTeams_final:
  assumes "processTeams api pairs acc m c = (Inr acc', m', c')"
  shows "map_of (fst acc') u = finalOf (processedGroups api pairs m c) (fst acc) u
     \<and> (distinct (map fst (fst acc)) \<longrightarrow> distinct (map fst (fst acc')))"
  using assms
proof (induction pairs arbitrary: acc m c)
  case Nil
  then show ?case by (simp add: finalOf_def lastGroupOf_def)
next
  case (Cons p pairs)
  obtain org team where p: "p = (org, team)" by (cases p)
  obtain ccName ok m1 where cc: "costCenterForTeam m org team = ((ccName, ok), m1)"
    by (cases "costCenterForTeam m org team") auto
  show ?case
  proof (cases ok)
    case False
    from p cc False Cons.prems have "processTeams api pairs acc m1 c = (Inr acc', m', c')"
      by simp
    from Cons.IH [OF this] show ?thesis using p cc False by simp
  next
    case True
    obtain r m2 c2 where f: "fetchTeamMembers api org (Slug team) m1 c = (r, m2, c2)"
      by (cases "fetchTeamMembers api org (Slug team) m1 c") auto
    show ?thesis
    proof (cases r)
      case (Inl err)
      from p cc True f Inl Cons.prems show ?thesis by simp
    next
      case (Inr members)
      show ?thesis
      proof (cases "members = []")
        case True
        from p cc \<open>ok\<close> f Inr True Cons.prems
        have "processTeams api pairs acc m2 c2 = (Inr acc', m', c')"
          by simp
        from Cons.IH [OF this] show ?thesis using p cc \<open>ok\<close> f Inr True by simp
      next
        case False
        let ?acc1 = "assignMembers ccName org team (teamKey m2 org (Slug team)) members acc"
        from p cc \<open>ok\<close> f Inr False Cons.prems
        have "processTeams api pairs ?acc1 m2 c2 = (Inr acc', m', c')"
          by simp
        from Cons.IH [OF this]
        have "map_of (fst acc') u = finalOf (processedGroups api pairs m2 c2) (fst ?acc1) u"
          and "distinct (map fst (fst ?acc1)) \<longrightarrow> distinct (map fst (fst acc'))"
          by simp_all
        then show ?thesis
          using p cc \<open>ok\<close> f Inr False
          by (simp add: finalOf_def lastGroupOf_Cons assignMembers_fst assignmentFrom_def
              assignMembers_distinct split: option.splits)
      qed
    qed
  qed
qed


subsection \<open>Grouping by cost center\<close>

lemma mset_update_append_aux:
  "distinct (map fst al) \<Longrightarrow> w = getOr [] (map_of al) k \<Longrightarrow>
     mset (concat (map snd (AList.update k (w @ [x]) al)))
       = add_mset x (mset (concat (map snd al)))"
proof (induction al)
  case Nil
  then show ?case by (simp add: getOr_def)
next
  case (Cons p al)
  obtain k' v where p: "p = (k', v)" by (cases p)
  show ?case
  proof (cases "k' = k")
    case True
    then show ?thesis using p Cons.prems by (simp add: getOr_def)
  next
    case False
    have "w = getOr [] (map_of al) k"
      using False p Cons.prems(2) by (simp add: getOr_def)
    with Cons.IH Cons.prems(1) have
      "mset (concat (map snd (AList.update k (w @ [x]) al)))
         = add_mset x (mset (concat (map snd al)))"
      by simp
    then show ?thesis
      using False p by simp
  qed
qed

lemma mset_update_append:
  "distinct (map fst al) \<Longrightarrow>
     mset (concat (map snd (AList.update k (getOr [] (map_of al) k @ [x]) al)))
       = add_mset x (mset (concat (map snd al)))"
  by (rule mset_update_append_aux) simp_all

lemma set_update_cases:
  "(k', v') \<in> set (AList.update k v al) \<Longrightarrow> (k', v') = (k, v) \<or> (k', v') \<in> set al"
  by (induction al) (auto split: if_splits)

lemma keyed_update:
  assumes "keyed al"
  shows "keyed (AList.update (CostCenter ua) (getOr [] (map_of al) (CostCenter ua) @ [ua]) al)"
proof -
  have "ua' \<in> set (getOr [] (map_of al) k) \<Longrightarrow> CostCenter ua' = k" for ua' k
    using assms
    by (auto simp: keyed_def getOr_def split: option.splits dest!: map_of_SomeD)
  then show ?thesis
    using assms
    by (auto simp: keyed_def distinct_update dest!: set_update_cases)
qed

lemma groupAssignments_props:
  assumes "keyed asg"
  shows "keyed (groupAssignments vs asg)
     \<and> mset (concat (map snd (groupAssignments vs asg)))
         = mset (concat (map snd asg)) + mset (map snd vs)"
  using assms
proof (induction vs arbitrary: asg)
  case Nil
  then show ?case by simp
next
  case (Cons p vs)
  obtain u ua where p: "p = (u, ua)" by (cases p)
  let ?asg1 = "AList.update (CostCenter ua) (getOr [] (map_of asg) (CostCenter ua) @ [ua]) asg"
  have k1: "keyed ?asg1" using Cons.prems by (rule keyed_update)
  have "mset (concat (map snd ?asg1)) = add_mset ua (mset (concat (map snd asg)))"
    using Cons.prems by (intro mset_update_append) (simp add: keyed_def)
  with Cons.IH [OF k1] show ?case using p by simp
qed

lemma filter_by_key:
  assumes "distinct (map fst uf)" and "\<forall>(k, ua) \<in> set uf. Username ua = k"
  shows "filter (\<lambda>ua. Username ua = u) (map snd uf) =
           (case map_of uf u of None \<Rightarrow> [] | Some ua \<Rightarrow> [ua])"
  using assms
proof (induction uf)
  case Nil
  then show ?case by simp
next
  case (Cons p uf)
  obtain k ua where p: "p = (k, ua)" by (cases p)
  from Cons.prems p have ka: "Username ua = k" and k: "k \<notin> fst ` set uf" by auto
  have ih: "filter (\<lambda>ua. Username ua = u) (map snd uf) =
           (case map_of uf u of None \<Rightarrow> [] | Some ua \<Rightarrow> [ua])"
    using Cons by simp
  show ?case
  proof (cases "k = u")
    case True
    with k have "map_of uf u = None" by (simp add: map_of_eq_None_iff)
    with ih True ka p show ?thesis by simp
  next
    case False
    with ih ka p show ?thesis by simp
  qed
qed

lemma mset_singleton_list: "mset xs = {#x#} \<Longrightarrow> xs = [x]"
  by (cases xs) auto

subsection \<open>The result of BuildTeamAssignments\<close>

text \<open>What a successful run returns, in terms of the groups it processed.\<close>

lemma BuildTeamAssignments_result:
  assumes ro: "range_order ord"
    and run: "BuildTeamAssignments api ord m c = (Inr built, m', c')"
  shows "\<exists>uf. distinct (map fst uf)
      \<and> (\<forall>u. map_of uf u = map_option (assignmentFrom u) (lastGroupOf u (groupsOfRun api ord m c)))
      \<and> mset (allAssignments built) = mset (map snd uf)
      \<and> (case built of None \<Rightarrow> uf = [] | Some assignments \<Rightarrow> keyed assignments)"
proof -
  obtain r m1 c1 where fa: "fetchAllTeams api m c = (r, m1, c1)"
    by (cases "fetchAllTeams api m c") auto
  from fa run obtain allTeams where r: "r = Inr allTeams"
    by (cases r) (auto simp: BuildTeamAssignments_def)
  show ?thesis
  proof (cases "length allTeams = 0")
    case True
    with fa r run have "built = None"
      by (simp add: BuildTeamAssignments_def)
    moreover have "groupsOfRun api ord m c = []"
      using fa r True by (simp add: groupsOfRun_def go_range_def teamPairs_def List.map_filter_simps
          range_order_def ro [unfolded range_order_def, rule_format, of "[]", simplified])
    ultimately show ?thesis
      by (intro exI [of _ "[]"]) (simp add: allAssignments_def lastGroupOf_def)
  next
    case False
    obtain r2 m2 c2 where pt:
      "processTeams api (teamPairs (go_range ord allTeams)) ([], Map.empty) m1 c1 = (r2, m2, c2)"
      by (cases "processTeams api (teamPairs (go_range ord allTeams)) ([], Map.empty) m1 c1") auto
    from fa r False pt run obtain uf utm where r2: "r2 = Inr (uf, utm)"
      by (cases r2) (auto simp: BuildTeamAssignments_def)
    from fa r False pt r2 run
    have built: "built = Some (groupAssignments (go_range ord uf) [])"
      by (simp add: BuildTeamAssignments_def)
    have groups: "groupsOfRun api ord m c = processedGroups api (teamPairs (go_range ord allTeams)) m1 c1"
      using fa r by (simp add: groupsOfRun_def)
    from processTeams_final [OF pt [unfolded r2]]
    have fin: "map_of uf u = finalOf (groupsOfRun api ord m c) [] u" and d: "distinct (map fst uf)"
      for u
      by (simp_all add: groups)
    have "keyed []" by (simp add: keyed_def)
    from groupAssignments_props [OF this, of "go_range ord uf"]
    have k: "keyed (groupAssignments (go_range ord uf) [])"
      and ms: "mset (concat (map snd (groupAssignments (go_range ord uf) [])))
                 = mset (map snd (go_range ord uf))"
      by simp_all
    have "mset (map snd (go_range ord uf)) = mset (map snd uf)"
      using mset_go_range [OF ro d] by (metis mset_map)
    with ms built k d fin show ?thesis
      by (intro exI [of _ uf])
         (auto simp: allAssignments_def finalOf_def split: option.splits)
  qed
qed

text \<open>
  Claim C1: for every remote service, every order of map iteration and every state of the
  manager, the map returned by \<open>BuildTeamAssignments\<close> holds at most one assignment per
  user over all its cost center keys; a user who is a member of one or more processed
  groups has exactly one, the assignment computed from the group processed last, filed
  under that group's cost center; a user in no processed group has none.
\<close>

theorem BuildTeamAssignments_one_per_user:
  assumes "range_order ord"
    and "BuildTeamAssignments api ord m c = (Inr built, m', c')"
  shows "(\<forall>u. length (filter (\<lambda>ua. Username ua = u) (allAssignments built)) \<le> 1)
     \<and> (\<forall>u g. lastGroupOf u (groupsOfRun api ord m c) = Some g \<longrightarrow>
           filter (\<lambda>ua. Username ua = u) (allAssignments built) = [assignmentFrom u g]
           \<and> (\<exists>assignments uas. built = Some assignments
                 \<and> map_of assignments (CostCenter (assignmentFrom u g)) = Some uas
                 \<and> assignmentFrom u g \<in> set uas))
     \<and> (\<forall>u. lastGroupOf u (groupsOfRun api ord m c) = None \<longrightarrow>
           filter (\<lambda>ua. Username ua = u) (allAssignments built) = [])"
proof -
  from BuildTeamAssignments_result [OF assms] obtain uf where
    d: "distinct (map fst uf)"
    and fin: "\<And>u. map_of uf u = map_option (assignmentFrom u) (lastGroupOf u (groupsOfRun api ord m c))"
    and ms: "mset (allAssignments built) = mset (map snd uf)"
    and kb: "case built of None \<Rightarrow> uf = [] | Some assignments \<Rightarrow> keyed assignments"
    by blast
  have un: "\<forall>(k, ua) \<in> set uf. Username ua = k"
  proof safe
    fix k ua assume "(k, ua) \<in> set uf"
    with d have "map_of uf k = Some ua" by simp
    with fin [of k] show "Username ua = k"
      by (cases "lastGroupOf k (groupsOfRun api ord m c)")
         (auto simp: assignmentFrom_def split: prod.splits)
  qed
  have flt: "mset (filter (\<lambda>ua. Username ua = u) (allAssignments built)) =
      mset (case map_of uf u of None \<Rightarrow> [] | Some ua \<Rightarrow> [ua])" for u
    using ms filter_by_key [OF d un, of u] by (metis mset_filter)
  have one: "filter (\<lambda>ua. Username ua = u) (allAssignments built) =
      (case lastGroupOf u (groupsOfRun api ord m c) of None \<Rightarrow> [] | Some g \<Rightarrow> [assignmentFrom u g])"
    for u
  proof (cases "lastGroupOf u (groupsOfRun api ord m c)")
    case None
    with flt [of u] fin [of u]
    have "mset (filter (\<lambda>ua. Username ua = u) (allAssignments built)) = {#}"
      by simp
    then have "filter (\<lambda>ua. Username ua = u) (allAssignments built) = []"
      by (simp only: mset_zero_iff)
    with None show ?thesis by simp
  next
    case (Some g)
    with flt [of u] fin [of u]
    have "mset (filter (\<lambda>ua. Username ua = u) (allAssignments built)) = {#assignmentFrom u g#}"
      by simp
    then have "filter (\<lambda>ua. Username ua = u) (allAssignments built) = [assignmentFrom u g]"
      by (rule mset_singleton_list)
    with Some show ?thesis by simp
  qed
  show ?thesis
  proof (intro conjI allI impI)
    fix u
    show "length (filter (\<lambda>ua. Username ua = u) (allAssignments built)) \<le> 1"
      by (simp add: one split: option.splits)
  next
    fix u g
    assume g: "lastGroupOf u (groupsOfRun api ord m c) = Some g"
    then show f: "filter (\<lambda>ua. Username ua = u) (allAssignments built) = [assignmentFrom u g]"
      by (simp add: one)
    have "assignmentFrom u g \<in> set (filter (\<lambda>ua. Username ua = u) (allAssignments built))"
      by (simp only: f list.set_intros)
    then have "assignmentFrom u g \<in> set (allAssignments built)"
      by simp
    then obtain assignments k uas where b: "built = Some assignments"
      and in_asg: "(k, uas) \<in> set assignments" "assignmentFrom u g \<in> set uas"
      by (auto simp: allAssignments_def split: option.splits)
    with kb have "keyed assignments" by simp
    with in_asg have "map_of assignments (CostCenter (assignmentFrom u g)) = Some uas"
      by (auto simp: keyed_def)
    with b in_asg show "\<exists>assignments uas. built = Some assignments
                 \<and> map_of assignments (CostCenter (assignmentFrom u g)) = Some uas
                 \<and> assignmentFrom u g \<in> set uas"
      by blast
  next
    fix u
    assume "lastGroupOf u (groupsOfRun api ord m c) = None"
    then show "filter (\<lambda>ua. Username ua = u) (allAssignments built) = []"
      by (simp add: one)
  qed
qed

lemma conflict_uuid:
  "uuidFromConflict conflictBody = Some ''0f8fad5b-d9cb-469f-a165-70867728950e''"
  by (simp add: conflictBody_def matchConflictAt_def equalFold_def isSpace_def isHex_def)

lemma map_of_identityMap_aux:
  "map_of (foldl (\<lambda>identity n. AList.update n n identity) acc ccNames) n =
     (if n \<in> set ccNames then Some n else map_of acc n)"
  by (induction ccNames arbitrary: acc) (auto simp: update_conv')

lemma map_of_identityMap:
  "map_of (identityMap ccNames) n = (if n \<in> set ccNames then Some n else None)"
  by (simp add: identityMap_def map_of_identityMap_aux)

lemma distinct_identityMap_aux:
  "distinct (map fst acc) \<Longrightarrow>
     distinct (map fst (foldl (\<lambda>identity n. AList.update n n identity) acc ccNames))"
  by (induction ccNames arbitrary: acc) (auto simp: distinct_update)

lemma distinct_identityMap: "distinct (map fst (identityMap ccNames))"
  by (simp add: identityMap_def distinct_identityMap_aux)

text \<open>
  Claim C8: with auto-creation disabled, \<open>EnsureCostCentersExist\<close> returns, for every list
  of names, the identity map (every requested name mapped to itself, and nothing else), a
  nil newly-created set and no error; the client is unchanged, so no remote call was made.
\<close>

theorem EnsureCostCentersExist_identity:
  assumes "\<not> autoCreate m"
  shows "\<exists>ccMap. EnsureCostCentersExist api m ccNames c = ((ccMap, None, None), c)
           \<and> distinct (map fst ccMap)
           \<and> (\<forall>n. map_of ccMap n = (if n \<in> set ccNames then Some n else None))"
  using assms
  by (intro exI [of _ "identityMap ccNames"])
     (simp add: EnsureCostCentersExist_def map_of_identityMap distinct_identityMap)

theorem EnsureCostCentersExist_identity_witness:
  "\<not> autoCreate testManager
   \<and> EnsureCostCentersExist conflictApi testManager [''cc-a'', ''cc-b''] newClient
       = (([(''cc-a'', ''cc-a''), (''cc-b'', ''cc-b'')], None, None), newClient)"
  using EnsureCostCentersExist_identity [of testManager conflictApi "[''cc-a'', ''cc-b'']" newClient]
  by (simp add: testManager_def EnsureCostCentersExist_def identityMap_def)

text \<open>
  Claim C2 against the code: the service answers the creation of "Team A" with a 409
  conflict whose body names the existing identifier. \<open>CreateCostCenter\<close> extracts it and
  returns it without error, and \<open>EnsureCostCentersExist\<close> then marks this identifier as
  newly created.
\<close>

theorem EnsureCostCentersExist_conflict_marked_new:
  "EnsureCostCentersExist conflictApi (testManager\<lparr>autoCreate := True\<rparr>) [''Team A''] newClient
     = (([(''Team A'', ''0f8fad5b-d9cb-469f-a165-70867728950e'')],
         Some [(''0f8fad5b-d9cb-469f-a165-70867728950e'', True)], None),
        newClient\<lparr>trace := [EvListCostCenters (Inr []),
                              EvPostCostCenter ''Team A'' (Inl (APIError 409 conflictBody))]\<rparr>)
   \<and> isNewlyCreated (Some [(''0f8fad5b-d9cb-469f-a165-70867728950e'', True)])
        ''0f8fad5b-d9cb-469f-a165-70867728950e''"
  by (simp add: EnsureCostCentersExist_def testManager_def newClient_def conflictApi_def baseApi_def
      GetAllActiveCostCenters_def CreateCostCenterWithPreload_def CreateCostCenter_def
      cacheGet_def cacheSet_def conflict_uuid isNewlyCreated_def getOr_def)

lemma range_order_id: "range_order (\<lambda>ks. ks)"
  by (simp add: range_order_def)

lemma build_org:
  "fst (BuildTeamAssignments orgApi (\<lambda>ks. ks) orgManager newClient) =
     Inr (Some
        [(''[org team] org1/team-a'',
          [\<lparr>Username = ''alice'', CostCenter = ''[org team] org1/team-a'',
              Org = ''org1'', TeamSlug = ''team-a''\<rparr>]),
         (''[org team] org1/team-b'',
          [\<lparr>Username = ''bob'', CostCenter = ''[org team] org1/team-b'',
              Org = ''org1'', TeamSlug = ''team-b''\<rparr>,
           \<lparr>Username = ''carol'', CostCenter = ''[org team] org1/team-b'',
              Org = ''org1'', TeamSlug = ''team-b''\<rparr>])])"
  by (simp add: BuildTeamAssignments_def fetchAllTeams_def orgApi_def baseApi_def orgManager_def
      testManager_def newClient_def go_range_def List.map_filter_simps teamPairs_def
      costCenterForTeam_def fetchTeamMembers_def teamKey_def teamA_def teamB_def getOr_def Let_def)

lemma groups_org:
  "groupsOfRun orgApi (\<lambda>ks. ks) orgManager newClient =
     [(''org1'', teamA, ''[org team] org1/team-a'', [''alice'', ''bob'']),
      (''org1'', teamB, ''[org team] org1/team-b'', [''bob'', ''carol''])]"
  by (simp add: groupsOfRun_def fetchAllTeams_def orgApi_def baseApi_def orgManager_def
      testManager_def newClient_def go_range_def List.map_filter_simps teamPairs_def
      costCenterForTeam_def fetchTeamMembers_def teamKey_def teamA_def teamB_def getOr_def Let_def)


text \<open>
  Claim C1 on the scenario of the specification: teams team-a (alice, bob) and team-b
  (bob, carol) of organization org1, automatic naming. bob is in two groups; his one
  assignment is the one of team-b, the group processed last.
\<close>

theorem BuildTeamAssignments_one_per_user_witness:
  "range_order (\<lambda>ks. ks)
   \<and> fst (BuildTeamAssignments orgApi (\<lambda>ks. ks) orgManager newClient) =
       Inr (Some
        [(''[org team] org1/team-a'',
          [\<lparr>Username = ''alice'', CostCenter = ''[org team] org1/team-a'',
              Org = ''org1'', TeamSlug = ''team-a''\<rparr>]),
         (''[org team] org1/team-b'',
          [\<lparr>Username = ''bob'', CostCenter = ''[org team] org1/team-b'',
              Org = ''org1'', TeamSlug = ''team-b''\<rparr>,
           \<lparr>Username = ''carol'', CostCenter = ''[org team] org1/team-b'',
              Org = ''org1'', TeamSlug = ''team-b''\<rparr>])])
   \<and> lastGroupOf ''bob'' (groupsOfRun orgApi (\<lambda>ks. ks) orgManager newClient) =
       Some (''org1'', teamB, ''[org team] org1/team-b'', [''bob'', ''carol''])
   \<and> filter (\<lambda>ua. Username ua = ''bob'')
         (allAssignments (case fst (BuildTeamAssignments orgApi (\<lambda>ks. ks) orgManager newClient) of
                            Inr built \<Rightarrow> built))
       = [\<lparr>Username = ''bob'', CostCenter = ''[org team] org1/team-b'',
           Org = ''org1'', TeamSlug = ''team-b''\<rparr>]"
proof -
  let ?run = "BuildTeamAssignments orgApi (\<lambda>ks. ks) orgManager newClient"
  let ?built = "Some
        [(''[org team] org1/team-a'',
          [\<lparr>Username = ''alice'', CostCenter = ''[org team] org1/team-a'',
              Org = ''org1'', TeamSlug = ''team-a''\<rparr>]),
         (''[org team] org1/team-b'',
          [\<lparr>Username = ''bob'', CostCenter = ''[org team] org1/team-b'',
              Org = ''org1'', TeamSlug = ''team-b''\<rparr>,
           \<lparr>Username = ''carol'', CostCenter = ''[org team] org1/team-b'',
              Org = ''org1'', TeamSlug = ''team-b''\<rparr>])]"
  have run: "?run = (Inr ?built, fst (snd ?run), snd (snd ?run))"
    using build_org by (intro prod_eqI) simp_all
  have last: "lastGroupOf ''bob'' (groupsOfRun orgApi (\<lambda>ks. ks) orgManager newClient) =
       Some (''org1'', teamB, ''[org team] org1/team-b'', [''bob'', ''carol''])"
    by (simp add: groups_org lastGroupOf_def)
  from BuildTeamAssignments_one_per_user [OF range_order_id run, THEN conjunct2, THEN conjunct1,
      rule_format, OF last]
  show ?thesis
    using range_order_id last build_org by (simp add: assignmentFrom_def teamB_def)
qed

subsection \<open>The summary\<close>

lemma update_fresh:
  "k \<notin> fst ` set al \<Longrightarrow> AList.update k v al = al @ [(k, v)]"
  by (induction al) auto

lemma users_fold:
  "distinct (map fst au) \<Longrightarrow>
     distinct (map fst (foldl (\<lambda>users ua. AList.update (Username ua) True users) au uas))
     \<and> set (map fst (foldl (\<lambda>users ua. AList.update (Username ua) True users) au uas))
         = set (map fst au) \<union> Username ` set uas"
proof (induction uas arbitrary: au)
  case Nil
  then show ?case by simp
next
  case (Cons ua uas)
  have d: "distinct (map fst (AList.update (Username ua) True au))"
    using Cons.prems by (simp add: distinct_update)
  have s: "set (map fst (AList.update (Username ua) True au)) = insert (Username ua) (set (map fst au))"
    using dom_update [of "Username ua" True au] by simp
  from Cons.IH [OF d] s show ?case by auto
qed

lemma summarize_fold:
  assumes "foldl (\<lambda>(allUsers, ccBreakdown) (ccName, userAssigns).
              (foldl (\<lambda>users ua. AList.update (Username ua) True users) allUsers userAssigns,
               AList.update ccName (length userAssigns) ccBreakdown)) (au0, bd0) vs = (au, bd)"
    and "distinct (map fst au0)" and "distinct (map fst vs)"
    and "fst ` set vs \<inter> fst ` set bd0 = {}"
  shows "distinct (map fst au)
     \<and> set (map fst au) = set (map fst au0) \<union> Username ` set (concat (map snd vs))
     \<and> bd = bd0 @ map (\<lambda>(ccName, userAssigns). (ccName, length userAssigns)) vs"
  using assms
proof (induction vs arbitrary: au0 bd0)
  case Nil
  then show ?case by simp
next
  case (Cons p vs)
  obtain k uas where p: "p = (k, uas)" by (cases p)
  let ?au1 = "foldl (\<lambda>users ua. AList.update (Username ua) True users) au0 uas"
  let ?bd1 = "AList.update k (length uas) bd0"
  from Cons.prems(4) p have fresh: "k \<notin> fst ` set bd0" by auto
  then have bd1: "?bd1 = bd0 @ [(k, length uas)]" by (rule update_fresh)
  from users_fold [OF Cons.prems(2), of uas]
  have d1: "distinct (map fst ?au1)"
    and s1: "set (map fst ?au1) = set (map fst au0) \<union> Username ` set uas"
    by simp_all
  have step: "foldl (\<lambda>(allUsers, ccBreakdown) (ccName, userAssigns).
              (foldl (\<lambda>users ua. AList.update (Username ua) True users) allUsers userAssigns,
               AList.update ccName (length userAssigns) ccBreakdown)) (?au1, ?bd1) vs = (au, bd)"
    using Cons.prems(1) p by simp
  have dv: "distinct (map fst vs)" and kv: "k \<notin> fst ` set vs"
    using Cons.prems(3) p by auto
  have disj: "fst ` set vs \<inter> fst ` set ?bd1 = {}"
    using Cons.prems(4) kv p by (auto simp: bd1)
  from Cons.IH [OF step d1 dv disj] s1 bd1 p show ?case
    by auto
qed

lemma mset_concat_map_cong:
  "mset xs = mset ys \<Longrightarrow> mset (concat (map f xs)) = mset (concat (map f ys))"
proof -
  have "mset (concat (map f zs)) = (\<Sum>z\<in>#mset zs. mset (f z))" for zs
    by (induction zs) auto
  then show "mset xs = mset ys \<Longrightarrow> mset (concat (map f xs)) = mset (concat (map f ys))"
    by simp
qed

lemma BuildTeamAssignments_partition:
  assumes ro: "range_order ord"
    and run: "BuildTeamAssignments api ord m c = (Inr built, m', c')"
  shows "distinct (map Username (allAssignments built))
     \<and> (case built of None \<Rightarrow> True | Some assignments \<Rightarrow> distinct (map fst assignments))"
proof -
  from BuildTeamAssignments_result [OF assms] obtain uf where
    d: "distinct (map fst uf)"
    and fin: "\<And>u. map_of uf u = map_option (assignmentFrom u) (lastGroupOf u (groupsOfRun api ord m c))"
    and ms: "mset (allAssignments built) = mset (map snd uf)"
    and kb: "case built of None \<Rightarrow> uf = [] | Some assignments \<Rightarrow> keyed assignments"
    by blast
  have un: "Username (snd e) = fst e" if "e \<in> set uf" for e
  proof -
    obtain k ua where e: "e = (k, ua)" by (cases e)
    with that d have "map_of uf k = Some ua" by simp
    with fin [of k] have "Username ua = k"
      by (cases "lastGroupOf k (groupsOfRun api ord m c)")
         (auto simp: assignmentFrom_def split: prod.splits)
    with e show ?thesis by simp
  qed
  then have "map Username (map snd uf) = map fst uf" by simp
  moreover from ms have "mset (map Username (allAssignments built)) = mset (map Username (map snd uf))"
    by (metis mset_map)
  ultimately have "mset (map Username (allAssignments built)) = mset (map fst uf)"
    by (simp only:)
  with d have "distinct (map Username (allAssignments built))"
    by (metis mset_eq_imp_distinct_iff)
  with kb show ?thesis
    by (auto simp: keyed_def split: option.splits)
qed

text \<open>
  Claim C10: in the summary of every run, \<open>UniqueUsers\<close> equals the sum of the counts in
  \<open>CostCenters\<close>. The count of a cost center is the length of its assignment list, the
  user names of all lists together are distinct (no user is under two cost centers), and
  \<open>UniqueUsers\<close> is their number.
\<close>

theorem GenerateSummary_unique_users:
  assumes "range_order ord"
    and "GenerateSummary api ord m c = (Inr s, m', c')"
  shows "UniqueUsers s = sum_list (map snd (CostCenters s))
     \<and> (\<exists>built. fst (BuildTeamAssignments api ord m c) = Inr built
           \<and> UniqueUsers s = length (allAssignments built)
           \<and> distinct (map Username (allAssignments built))
           \<and> distinct (map fst (CostCenters s))
           \<and> (\<forall>ccName. map_of (CostCenters s) ccName =
                 map_option length (map_of (case built of None \<Rightarrow> [] | Some a \<Rightarrow> a) ccName)))"
proof -
  obtain r m1 c1 where b: "BuildTeamAssignments api ord m c = (r, m1, c1)"
    by (cases "BuildTeamAssignments api ord m c") auto
  from b assms(2) obtain built where r: "r = Inr built"
    by (cases r) (auto simp: GenerateSummary_def)
  define assignments where "assignments = (case built of None \<Rightarrow> [] | Some a \<Rightarrow> a)"
  define vs where "vs = go_range ord assignments"
  obtain au bd where sm: "summarize vs = (au, bd)" by (cases "summarize vs")
  from b r sm assms(2) have s: "UniqueUsers s = length au" "CostCenters s = bd"
    by (auto simp: GenerateSummary_def Let_def assignments_def vs_def)
  from BuildTeamAssignments_partition [OF assms(1) b [unfolded r]]
  have du: "distinct (map Username (allAssignments built))"
    and dk: "distinct (map fst assignments)"
    by (auto simp: assignments_def split: option.splits)
  have all: "allAssignments built = concat (map snd assignments)"
    by (simp add: allAssignments_def assignments_def split: option.splits)
  have mv: "mset vs = mset assignments"
    unfolding vs_def using assms(1) dk by (rule mset_go_range)
  have dv: "distinct (map fst vs)"
    unfolding vs_def using assms(1) dk by (rule distinct_go_range)
  have mc: "mset (concat (map snd vs)) = mset (allAssignments built)"
    unfolding all using mv by (rule mset_concat_map_cong)
  then have "mset (map Username (concat (map snd vs))) = mset (map Username (allAssignments built))"
    by (metis mset_map)
  with du have duv: "distinct (map Username (concat (map snd vs)))"
    by (metis mset_eq_imp_distinct_iff)
  from summarize_fold [OF sm [unfolded summarize_def]] dv
  have dau: "distinct (map fst au)"
    and sau: "set (map fst au) = Username ` set (concat (map snd vs))"
    and bd: "bd = map (\<lambda>(ccName, userAssigns). (ccName, length userAssigns)) vs"
    by simp_all
  have "length au = card (set (map fst au))"
    using dau by (metis distinct_card length_map)
  also have "\<dots> = card (set (map Username (concat (map snd vs))))"
    using sau by simp
  also have "\<dots> = length (concat (map snd vs))"
    using duv by (metis distinct_card length_map)
  finally have lau: "length au = length (concat (map snd vs))" .
  have "sum_list (map snd bd) = sum_list (map (\<lambda>p. length (snd p)) vs)"
    unfolding bd by (simp add: comp_def case_prod_beta)
  also have "\<dots> = length (concat (map snd vs))"
    by (simp add: length_concat comp_def)
  finally have sbd: "sum_list (map snd bd) = length (concat (map snd vs))" .
  have len: "length (concat (map snd vs)) = length (allAssignments built)"
    using mc by (metis size_mset)
  have kbd: "map fst bd = map fst vs"
    unfolding bd by (simp add: case_prod_beta comp_def)
  have mbd: "map_of bd k = map_option length (map_of assignments k)" for k
  proof -
    have "map_of bd k = map_option length (map_of vs k)"
      unfolding bd by (induction vs) auto
    moreover have "map_of vs = map_of assignments"
      using mv dv dk by (intro map_of_inject_set [THEN iffD2]) (metis set_mset_mset)+
    ultimately show ?thesis by simp
  qed
  show ?thesis
    using lau sbd s len du dv kbd mbd b r
    by (intro conjI exI [of _ built]) (simp_all add: assignments_def)
qed


lemma summary_org:
  "fst (GenerateSummary orgApi (\<lambda>ks. ks) orgManager newClient) =
     Inr \<lparr>Mode = ''auto'', Scope = ''organization'', Organizations = [''org1''],
          TotalTeams = 2, TotalCCs = 2, UniqueUsers = 3,
          CostCenters = [(''[org team] org1/team-a'', 1), (''[org team] org1/team-b'', 2)]\<rparr>"
  by (simp add: GenerateSummary_def summarize_def
      BuildTeamAssignments_def fetchAllTeams_def orgApi_def baseApi_def orgManager_def
      testManager_def newClient_def go_range_def List.map_filter_simps teamPairs_def
      costCenterForTeam_def fetchTeamMembers_def teamKey_def teamA_def teamB_def getOr_def Let_def)

text \<open>Claim C10 on the scenario of the specification: three users, counts 1 and 2.\<close>

theorem GenerateSummary_unique_users_witness:
  "range_order (\<lambda>ks. ks)
   \<and> fst (GenerateSummary orgApi (\<lambda>ks. ks) orgManager newClient) =
     Inr \<lparr>Mode = ''auto'', Scope = ''organization'', Organizations = [''org1''],
          TotalTeams = 2, TotalCCs = 2, UniqueUsers = 3,
          CostCenters = [(''[org team] org1/team-a'', 1), (''[org team] org1/team-b'', 2)]\<rparr>
   \<and> (3::nat) = sum_list (map snd [(''[org team] org1/team-a'', 1), (''[org team] org1/team-b'', 2::nat)])"
proof -
  let ?run = "GenerateSummary orgApi (\<lambda>ks. ks) orgManager newClient"
  let ?s = "\<lparr>Mode = ''auto'', Scope = ''organization'', Organizations = [''org1''],
          TotalTeams = 2, TotalCCs = 2, UniqueUsers = 3,
          CostCenters = [(''[org team] org1/team-a'', 1), (''[org team] org1/team-b'', 2)]\<rparr>"
  have run: "?run = (Inr ?s, fst (snd ?run), snd (snd ?run))"
    using summary_org by (intro prod_eqI) simp_all
  from GenerateSummary_unique_users [OF range_order_id run, THEN conjunct1]
  show ?thesis
    using range_order_id summary_org by simp
qed

subsection \<open>The removal pass\<close>











subsection \<open>Plan mode\<close>

lemma isTeamFetch_not_mutating: "isTeamFetch e \<Longrightarrow> \<not> mutating e"
  by (cases e) simp_all

lemma fetchedOnly_refl: "fetchedOnly c c"
  by (simp add: fetchedOnly_def)

lemma fetchedOnly_trans: "fetchedOnly c c1 \<Longrightarrow> fetchedOnly c1 c2 \<Longrightarrow> fetchedOnly c c2"
  by (auto simp: fetchedOnly_def)

lemma fetchedOnly_step:
  "isTeamFetch e \<Longrightarrow> fetchedOnly c (c\<lparr>remote := rem, trace := trace c @ [e]\<rparr>)"
  by (simp add: fetchedOnly_def)

lemma fetchOrgTeams_fetchedOnly:
  "fetchOrgTeams api os allTeams m c = (r, m', c') \<Longrightarrow>
     fetchedOnly c c' \<and> (staleLog m' = staleLog m \<and> syncLog m' = syncLog m \<and> removeUsers m' = removeUsers m)"
proof (induction os arbitrary: allTeams m c)
  case Nil
  then show ?case by (simp add: fetchedOnly_refl)
next
  case (Cons org os)
  obtain res rem where g: "api_GetOrgTeams api org (remote c) = (res, rem)"
    by (cases "api_GetOrgTeams api org (remote c)")
  define c1 where "c1 = c\<lparr>remote := rem, trace := trace c @ [EvOrgTeams org res]\<rparr>"
  have s: "fetchedOnly c c1" unfolding c1_def by (rule fetchedOnly_step) simp
  show ?case
  proof (cases res)
    case (Inl err)
    with g Cons.prems s show ?thesis by (auto simp: c1_def)
  next
    case (Inr teams)
    with g Cons.prems have "fetchOrgTeams api os (AList.update org teams allTeams)
        (m\<lparr>teamsCache := AList.update org teams (teamsCache m)\<rparr>) c1 = (r, m', c')"
      by (simp add: c1_def)
    from Cons.IH [OF this] s show ?thesis
      by (auto intro: fetchedOnly_trans)
  qed
qed

lemma fetchAllTeams_fetchedOnly:
  assumes "fetchAllTeams api m c = (r, m', c')"
  shows "fetchedOnly c c' \<and> (staleLog m' = staleLog m \<and> syncLog m' = syncLog m \<and> removeUsers m' = removeUsers m)"
proof (cases "scope m = ''enterprise''")
  case True
  obtain res rem where g: "api_GetEnterpriseTeams api (remote c) = (res, rem)"
    by (cases "api_GetEnterpriseTeams api (remote c)")
  have "fetchedOnly c (c\<lparr>remote := rem, trace := trace c @ [EvEnterpriseTeams res]\<rparr>)"
    by (rule fetchedOnly_step) simp
  with True g assms show ?thesis
    by (cases res) (auto simp: fetchAllTeams_def)
next
  case False
  show ?thesis
  proof (cases "orgs m = []")
    case True
    with False assms show ?thesis by (auto simp: fetchAllTeams_def fetchedOnly_refl)
  next
    case ne: False
    with False assms have "fetchOrgTeams api (orgs m) [] m c = (r, m', c')"
      by (simp add: fetchAllTeams_def)
    then show ?thesis by (rule fetchOrgTeams_fetchedOnly)
  qed
qed

lemma fetchTeamMembers_fetchedOnly:
  assumes "fetchTeamMembers api org slug m c = (r, m', c')"
  shows "fetchedOnly c c' \<and> (staleLog m' = staleLog m \<and> syncLog m' = syncLog m \<and> removeUsers m' = removeUsers m)"
proof (cases "membersCache m (teamKey m org slug)")
  case (Some cached)
  with assms show ?thesis by (auto simp: fetchTeamMembers_def fetchedOnly_refl)
next
  case None
  define call where "call =
     (if scope m = ''enterprise'' then api_GetEnterpriseTeamMembers api slug (remote c)
      else api_GetOrgTeamMembers api org slug (remote c))"
  define ev where "ev = (if scope m = ''enterprise'' then EvEnterpriseTeamMembers slug (fst call)
                         else EvOrgTeamMembers org slug (fst call))"
  have e: "isTeamFetch ev" by (simp add: ev_def)
  have s: "fetchedOnly c (c\<lparr>remote := snd call, trace := trace c @ [ev]\<rparr>)"
    using e by (rule fetchedOnly_step)
  from assms None have "c' = c\<lparr>remote := snd call, trace := trace c @ [ev]\<rparr> \<and> (staleLog m' = staleLog m \<and> syncLog m' = syncLog m \<and> removeUsers m' = removeUsers m)"
    by (cases "fst call")
       (auto simp: fetchTeamMembers_def Let_def case_prod_beta call_def ev_def)
  with s show ?thesis by simp
qed

lemma costCenterForTeam_logs:
  "costCenterForTeam m org team = (r, m') \<Longrightarrow> (staleLog m' = staleLog m \<and> syncLog m' = syncLog m \<and> removeUsers m' = removeUsers m)"
  by (auto simp: costCenterForTeam_def Let_def split: option.splits if_splits)

lemma processTeams_fetchedOnly:
  "processTeams api pairs acc m c = (r, m', c') \<Longrightarrow>
     fetchedOnly c c' \<and> (staleLog m' = staleLog m \<and> syncLog m' = syncLog m \<and> removeUsers m' = removeUsers m)"
proof (induction pairs arbitrary: acc m c)
  case Nil
  then show ?case by (simp add: fetchedOnly_refl)
next
  case (Cons p pairs)
  obtain org team where p: "p = (org, team)" by (cases p)
  obtain ccName ok m1 where cc: "costCenterForTeam m org team = ((ccName, ok), m1)"
    by (cases "costCenterForTeam m org team") auto
  have l1: "(staleLog m1 = staleLog m \<and> syncLog m1 = syncLog m \<and> removeUsers m1 = removeUsers m)"
    using cc by (rule costCenterForTeam_logs)
  show ?case
  proof (cases ok)
    case False
    from p cc False Cons.prems have "processTeams api pairs acc m1 c = (r, m', c')"
      by simp
    from Cons.IH [OF this] l1 show ?thesis by simp
  next
    case True
    obtain r2 m2 c2 where f: "fetchTeamMembers api org (Slug team) m1 c = (r2, m2, c2)"
      by (cases "fetchTeamMembers api org (Slug team) m1 c") auto
    from fetchTeamMembers_fetchedOnly [OF f] l1
    have s: "fetchedOnly c c2" "(staleLog m2 = staleLog m \<and> syncLog m2 = syncLog m \<and> removeUsers m2 = removeUsers m)" by simp_all
    show ?thesis
    proof (cases r2)
      case (Inl err)
      from p cc True f Inl Cons.prems s show ?thesis by auto
    next
      case (Inr members)
      from p cc True f Inr Cons.prems have
        "processTeams api pairs acc m2 c2 = (r, m', c')
         \<or> processTeams api pairs
              (assignMembers ccName org team (teamKey m2 org (Slug team)) members acc) m2 c2
             = (r, m', c')"
        by (auto split: if_splits)
      then have "\<exists>acc'. processTeams api pairs acc' m2 c2 = (r, m', c')"
        by blast
      then obtain acc' where "processTeams api pairs acc' m2 c2 = (r, m', c')" by blast
      from Cons.IH [OF this] s show ?thesis
        by (auto intro: fetchedOnly_trans)
    qed
  qed
qed

lemma BuildTeamAssignments_fetchedOnly:
  assumes "BuildTeamAssignments api ord m c = (r, m', c')"
  shows "fetchedOnly c c' \<and> (staleLog m' = staleLog m \<and> syncLog m' = syncLog m \<and> removeUsers m' = removeUsers m)"
proof -
  obtain r1 m1 c1 where fa: "fetchAllTeams api m c = (r1, m1, c1)"
    by (cases "fetchAllTeams api m c") auto
  from fetchAllTeams_fetchedOnly [OF fa]
  have s1: "fetchedOnly c c1" "(staleLog m1 = staleLog m \<and> syncLog m1 = syncLog m \<and> removeUsers m1 = removeUsers m)" by simp_all
  show ?thesis
  proof (cases r1)
    case (Inl err)
    with fa assms s1 show ?thesis by (auto simp: BuildTeamAssignments_def)
  next
    case (Inr allTeams)
    show ?thesis
    proof (cases "length allTeams = 0")
      case True
      with fa Inr assms s1 show ?thesis by (auto simp: BuildTeamAssignments_def)
    next
      case False
      obtain r2 m2 c2 where pt:
        "processTeams api (teamPairs (go_range ord allTeams)) ([], Map.empty) m1 c1 = (r2, m2, c2)"
        by (cases "processTeams api (teamPairs (go_range ord allTeams)) ([], Map.empty) m1 c1") auto
      from processTeams_fetchedOnly [OF pt] s1
      have s2: "fetchedOnly c c2" "(staleLog m2 = staleLog m \<and> syncLog m2 = syncLog m \<and> removeUsers m2 = removeUsers m)"
        by (auto intro: fetchedOnly_trans)
      from fa Inr False pt assms have "m' = m2 \<and> c' = c2"
        by (cases r2) (auto simp: BuildTeamAssignments_def)
      with s2 show ?thesis by simp
    qed
  qed
qed

subsection \<open>The report of the plan mode\<close>

lemma groupAssignments_nonempty:
  "(\<forall>p \<in> set asg. snd p \<noteq> []) \<Longrightarrow> \<forall>p \<in> set (groupAssignments vs asg). snd p \<noteq> []"
proof (induction vs arbitrary: asg)
  case Nil
  then show ?case by simp
next
  case (Cons p vs)
  obtain u ua where p: "p = (u, ua)" by (cases p)
  have "\<forall>q \<in> set (AList.update (CostCenter ua)
            (getOr [] (map_of asg) (CostCenter ua) @ [ua]) asg). snd q \<noteq> []"
    using Cons.prems by (auto dest!: set_update_cases)
  from Cons.IH [OF this] p show ?case by simp
qed

lemma BuildTeamAssignments_nonempty:
  assumes "BuildTeamAssignments api ord m c = (Inr (Some assignments), m', c')"
  shows "\<forall>p \<in> set assignments. snd p \<noteq> []"
  using assms groupAssignments_nonempty [of "[]"]
  by (auto simp: BuildTeamAssignments_def split: prod.splits sum.splits if_splits)

lemma dedupUsers_distinct:
  "distinct (map Username uas) \<Longrightarrow> Username ` set uas \<inter> set seen = {} \<Longrightarrow>
     dedupUsers uas seen users = users @ map Username uas"
  by (induction uas arbitrary: seen users) auto

lemma toIdBased_aux:
  assumes "distinct (map fst visited)"
    and "\<forall>p \<in> set visited. snd p \<noteq> [] \<and> distinct (map Username (snd p))"
    and "\<forall>k \<in> fst ` set visited. map_of ccMap k = Some k"
    and "fst ` set acc \<inter> fst ` set visited = {}"
  shows "foldl (\<lambda>idBased (ccName, userAssigns).
              (let ccID = getOr [] (map_of ccMap) ccName
               in case dedupUsers userAssigns [] (getOr [] (map_of idBased) ccID) of
                    [] \<Rightarrow> idBased
                  | u # us \<Rightarrow> AList.update ccID (u # us) idBased))
           acc visited
         = acc @ map (\<lambda>p. (fst p, map Username (snd p))) visited"
  using assms
proof (induction visited arbitrary: acc)
  case Nil
  then show ?case by simp
next
  case (Cons p visited)
  obtain k uas where p: "p = (k, uas)" by (cases p)
  from Cons.prems p have ne: "uas \<noteq> []" and du: "distinct (map Username uas)"
    and id: "getOr [] (map_of ccMap) k = k" and fresh: "k \<notin> fst ` set acc"
    and kv: "k \<notin> fst ` set visited"
    by (auto simp: getOr_def)
  from fresh have "map_of acc k = None" by (simp add: map_of_eq_None_iff)
  then have g: "getOr [] (map_of acc) k = []" by (simp add: getOr_def)
  have dd: "dedupUsers uas [] [] = map Username uas"
    using dedupUsers_distinct [OF du, of "[]" "[]"] by simp
  obtain u us where mu: "map Username uas = u # us"
    using ne by (cases uas) auto
  have upd: "AList.update k (u # us) acc = acc @ [(k, u # us)]"
    using fresh by (rule update_fresh)
  have disj: "fst ` set (acc @ [(k, u # us)]) \<inter> fst ` set visited = {}"
    using Cons.prems(4) kv p by auto
  have "foldl (\<lambda>idBased (ccName, userAssigns).
              (let ccID = getOr [] (map_of ccMap) ccName
               in case dedupUsers userAssigns [] (getOr [] (map_of idBased) ccID) of
                    [] \<Rightarrow> idBased
                  | u # us \<Rightarrow> AList.update ccID (u # us) idBased))
           (acc @ [(k, u # us)]) visited
         = (acc @ [(k, u # us)]) @ map (\<lambda>p. (fst p, map Username (snd p))) visited"
    using Cons.prems(1,2,3) disj by (intro Cons.IH) auto
  then show ?case
    using p id g dd mu upd by simp
qed

lemma toIdBased_identity:
  assumes "distinct (map fst visited)"
    and "\<forall>p \<in> set visited. snd p \<noteq> [] \<and> distinct (map Username (snd p))"
    and "\<forall>k \<in> fst ` set visited. map_of ccMap k = Some k"
  shows "toIdBased ccMap visited = map (\<lambda>p. (fst p, map Username (snd p))) visited"
  using toIdBased_aux [OF assms, of "[]"] by (simp add: toIdBased_def)

lemma plan_sync_unfold:
  assumes "BuildTeamAssignments api ord m c = (Inr built, m1, c1)"
  shows "SyncTeamAssignments api ord ''plan'' ignoreCurrentCC m c =
     (let assignments = (case built of None \<Rightarrow> [] | Some a \<Rightarrow> a);
          visited = go_range ord assignments;
          idBased = toIdBased (identityMap (sort (map fst visited))) visited
      in (Inr None,
          m1\<lparr>syncLog := syncLog m1 @
               (if assignments = [] then [NoTeamAssignments]
                else [WouldEnsure (length visited),
                      PreparedAssignments (length idBased)
                        (sum_list (map (\<lambda>(ccID, users). length users) (go_range ord idBased))),
                      WouldSync]
                     @ map (\<lambda>(ccID, users). WouldAssign ccID (length users)) (go_range ord idBased)
                     @ (if removeUsers m1 then [FullSyncEnabled] else []))\<rparr>,
          c1))"
  using assms by (simp add: SyncTeamAssignments_def Let_def logSync_def)


lemma sum_list_mset_cong:
  "mset xs = mset ys \<Longrightarrow> sum_list (map f xs) = sum_list (map (f :: 'a \<Rightarrow> nat) ys)"
proof -
  have "sum_list (map f zs) = sum_mset (image_mset f (mset zs))" for zs
    by (induction zs) auto
  then show "mset xs = mset ys \<Longrightarrow> sum_list (map f xs) = sum_list (map f ys)"
    by simp
qed

lemma plan_report_counts:
  assumes ro: "range_order ord"
    and d: "distinct (map fst assignments)"
    and ne: "\<forall>p \<in> set assignments. snd p \<noteq> [] \<and> distinct (map Username (snd p))"
  defines "visited \<equiv> go_range ord assignments"
  defines "idBased \<equiv> toIdBased (identityMap (sort (map fst visited))) visited"
  shows "length visited = length assignments \<and> length idBased = length assignments
     \<and> sum_list (map (\<lambda>(ccID, users). length users) (go_range ord idBased))
         = length (concat (map snd assignments))
     \<and> mset (map (\<lambda>(ccID, users). WouldAssign ccID (length users)) (go_range ord idBased))
         = image_mset (\<lambda>p. WouldAssign (fst p) (length (snd p))) (mset assignments)"
proof -
  let ?g = "\<lambda>p :: string \<times> UserAssignment list. (fst p, map Username (snd p))"
  have mv: "mset visited = mset assignments"
    unfolding visited_def using ro d by (rule mset_go_range)
  have sv: "set visited = set assignments"
    unfolding visited_def using ro d by (rule set_go_range)
  have dv: "distinct (map fst visited)"
    unfolding visited_def using ro d by (rule distinct_go_range)
  from mv have lv: "length visited = length assignments"
    by (rule mset_eq_length)
  have idm: "\<forall>k \<in> fst ` set visited. map_of (identityMap (sort (map fst visited))) k = Some k"
    by (auto simp: map_of_identityMap)
  have ib: "idBased = map ?g visited"
    unfolding idBased_def using dv _ idm
    by (rule toIdBased_identity) (use ne sv in auto)
  then have li: "length idBased = length assignments"
    using lv by simp
  have "map fst idBased = map fst visited"
    by (simp add: ib)
  with dv have dib: "distinct (map fst idBased)" by simp
  have mr: "mset (go_range ord idBased) = mset (map ?g assignments)"
    using mset_go_range [OF ro dib] mv by (simp add: ib)
  have "sum_list (map (\<lambda>(ccID, users). length users) (go_range ord idBased))
      = sum_list (map (\<lambda>(ccID, users). length users) (map ?g assignments))"
    using mr by (rule sum_list_mset_cong)
  also have "\<dots> = sum_list (map length (map snd assignments))"
    by (simp add: comp_def)
  also have "\<dots> = length (concat (map snd assignments))"
    by (simp add: length_concat)
  finally have tot: "sum_list (map (\<lambda>(ccID, users). length users) (go_range ord idBased))
      = length (concat (map snd assignments))" .
  have "mset (map (\<lambda>(ccID, users). WouldAssign ccID (length users)) (go_range ord idBased))
      = image_mset (\<lambda>(ccID, users). WouldAssign ccID (length users)) (mset (map ?g assignments))"
    using mr by simp
  also have "\<dots> = image_mset (\<lambda>p. WouldAssign (fst p) (length (snd p))) (mset assignments)"
    by (simp add: image_mset.compositionality comp_def)
  finally show ?thesis using lv li tot by simp
qed

lemma BuildTeamAssignments_lists:
  assumes ro: "range_order ord"
    and run: "BuildTeamAssignments api ord m c = (Inr (Some assignments), m', c')"
  shows "distinct (map fst assignments)
     \<and> (\<forall>p \<in> set assignments. snd p \<noteq> [] \<and> distinct (map Username (snd p)))"
proof -
  from BuildTeamAssignments_partition [OF ro run]
  have du: "distinct (map Username (concat (map snd assignments)))"
    and dk: "distinct (map fst assignments)"
    by (simp_all add: allAssignments_def)
  have "distinct (map Username (snd p))" if "p \<in> set assignments" for p
  proof -
    from du have "distinct (concat (map (map Username) (map snd assignments)))"
      by (simp add: map_concat)
    then have "\<forall>ys \<in> set (map (map Username) (map snd assignments)). distinct ys"
      by (simp add: distinct_concat_iff)
    with that show ?thesis by auto
  qed
  with dk BuildTeamAssignments_nonempty [OF run] show ?thesis by blast
qed

text \<open>
  Claim C4, amended: in plan mode, whatever the service answers (errors included),
  \<open>SyncTeamAssignments\<close> makes exactly the remote calls of \<open>BuildTeamAssignments\<close>,
  the listings of teams and team members of the fetch and resolve step, so no cost center
  is created, no member added or removed and no budget created. It returns a nil result,
  or the error of that step, and leaves the manager as that step leaves it, apart from
  the report it writes to the log. The report holds counts only: the number of cost
  centers, the total number of users, and for every cost center of the resolved
  assignments one record with its number of users, followed by the notice on full sync
  when that is enabled; without assignments it is the one warning. No stale user is
  reported and the cache is untouched: provisioning with its preload listing, the check
  of current members and the detection of stale users are left out.
\<close>

theorem plan_mode_only_fetches:
  assumes sync: "SyncTeamAssignments api ord ''plan'' ignoreCurrentCC m c = (r, m', c')"
    and build: "BuildTeamAssignments api ord m c = (b, m1, c1)"
  shows "c' = c1
     \<and> (\<exists>evs. trace c' = trace c @ evs
            \<and> (\<forall>e \<in> set evs. \<not> mutating e) \<and> (\<forall>e \<in> set evs. isTeamFetch e))
     \<and> ccCache c' = ccCache c
     \<and> staleLog m' = staleLog m
     \<and> m' = m1\<lparr>syncLog := syncLog m'\<rparr>
     \<and> (case b of
          Inl err \<Rightarrow> r = Inl err \<and> syncLog m' = syncLog m
        | Inr built \<Rightarrow>
            r = Inr None
            \<and> (let assignments = (case built of None \<Rightarrow> [] | Some a \<Rightarrow> a) in
               (assignments = [] \<longrightarrow> syncLog m' = syncLog m @ [NoTeamAssignments])
               \<and> (assignments \<noteq> [] \<and> range_order ord \<longrightarrow>
                   (\<exists>ws. syncLog m' = syncLog m
                            @ [WouldEnsure (length assignments),
                               PreparedAssignments (length assignments)
                                 (length (concat (map snd assignments))),
                               WouldSync]
                            @ ws @ (if removeUsers m then [FullSyncEnabled] else [])
                       \<and> mset ws = image_mset (\<lambda>p. WouldAssign (fst p) (length (snd p)))
                                     (mset assignments)))))"
proof -
  from BuildTeamAssignments_fetchedOnly [OF build]
  have f: "fetchedOnly c c1" and k: "staleLog m1 = staleLog m" "syncLog m1 = syncLog m"
    "removeUsers m1 = removeUsers m"
    by simp_all
  show ?thesis
  proof (cases b)
    case (Inl err)
    with sync build have "r = Inl err \<and> m' = m1 \<and> c' = c1"
      by (simp add: SyncTeamAssignments_def)
    with f k Inl show ?thesis
      by (auto simp: fetchedOnly_def dest: isTeamFetch_not_mutating)
  next
    case (Inr built)
    define assignments where "assignments = (case built of None \<Rightarrow> [] | Some a \<Rightarrow> a)"
    define visited where "visited = go_range ord assignments"
    define idBased where "idBased = toIdBased (identityMap (sort (map fst visited))) visited"
    define ws where "ws = map (\<lambda>(ccID, users). WouldAssign ccID (length users)) (go_range ord idBased)"
    define rep where "rep =
       (if assignments = [] then [NoTeamAssignments]
        else [WouldEnsure (length visited),
              PreparedAssignments (length idBased)
                (sum_list (map (\<lambda>(ccID, users). length users) (go_range ord idBased))),
              WouldSync] @ ws @ (if removeUsers m1 then [FullSyncEnabled] else []))"
    from plan_sync_unfold [OF build [unfolded Inr], of ignoreCurrentCC] sync
    have res: "r = Inr None" "c' = c1" and m': "m' = m1\<lparr>syncLog := syncLog m1 @ rep\<rparr>"
      by (simp_all add: Let_def rep_def ws_def idBased_def visited_def assignments_def)
    from m' have sl: "syncLog m' = syncLog m @ rep" and st: "staleLog m' = staleLog m"
      and mm: "m' = m1\<lparr>syncLog := syncLog m'\<rparr>"
      using k by simp_all
    have e: "assignments = [] \<longrightarrow> syncLog m' = syncLog m @ [NoTeamAssignments]"
      using sl by (simp add: rep_def)
    have n: "\<exists>ws. syncLog m' = syncLog m
                 @ [WouldEnsure (length assignments),
                    PreparedAssignments (length assignments)
                      (length (concat (map snd assignments))),
                    WouldSync]
                 @ ws @ (if removeUsers m then [FullSyncEnabled] else [])
            \<and> mset ws = image_mset (\<lambda>p. WouldAssign (fst p) (length (snd p)))
                          (mset assignments)"
      if ne: "assignments \<noteq> []" and ro: "range_order ord"
    proof -
      from ne obtain a where built: "built = Some a" and a: "assignments = a"
        by (cases built) (auto simp: assignments_def)
      from BuildTeamAssignments_lists [OF ro build [unfolded Inr built]] a
      have "distinct (map fst assignments)"
        "\<forall>p \<in> set assignments. snd p \<noteq> [] \<and> distinct (map Username (snd p))"
        by simp_all
      from plan_report_counts [OF ro this]
      have "length visited = length assignments" "length idBased = length assignments"
        "sum_list (map (\<lambda>(ccID, users). length users) (go_range ord idBased))
           = length (concat (map snd assignments))"
        "mset ws = image_mset (\<lambda>p. WouldAssign (fst p) (length (snd p))) (mset assignments)"
        by (simp_all add: visited_def idBased_def ws_def)
      with sl ne k show ?thesis
        by (intro exI [of _ ws]) (simp add: rep_def)
    qed
    from f res st mm e n Inr show ?thesis
      by (auto simp: fetchedOnly_def Let_def assignments_def dest: isTeamFetch_not_mutating)
  qed
qed

text \<open>Unfolding the model for the kernel evaluation of a whole run.\<close>

lemmas eval_defs =
  SyncTeamAssignments_def BuildTeamAssignments_def fetchAllTeams_def entApi_def baseApi_def
  entManager_def testManager_def newClient_def go_range_def List.map_filter_simps teamPairs_def
  costCenterForTeam_def fetchTeamMembers_def teamKey_def devs_def getOr_def Let_def listOrder_def
  identityMap_def toIdBased_def EnsureCostCentersExist_def BulkUpdateCostCenterAssignments_def
  AddUsersToCostCenter_def GetCostCenterMembers_def GetCostCenter_def usersOf_def staleDetail_def
  handleUserRemoval_def filterNewlyCreated_def isNewlyCreated_def reverseMap_def staleMembers_def
  displayNameOf_def RemoveUsersFromCostCenter_def CheckUserCostCenterMembership_def logSync_def

lemma plan_run:
  "SyncTeamAssignments entApi listOrder ''plan'' False entManager newClient =
     (Inr None,
      entManager\<lparr>teamsCache := [(''acme'', [devs])],
                 membersCache := [''devs'' \<mapsto> [''alice'', ''bob'']],
                 ccNameCache := [''devs'' \<mapsto> ''[enterprise team] Devs''],
                 syncLog := [WouldEnsure 1, PreparedAssignments 1 2, WouldSync,
                             WouldAssign ''[enterprise team] Devs'' 2]\<rparr>,
      newClient\<lparr>trace := [EvEnterpriseTeams (Inr [devs]),
                           EvEnterpriseTeamMembers ''devs'' (Inr [\<lparr>Login = ''alice''\<rparr>, \<lparr>Login = ''bob''\<rparr>])]\<rparr>)"
  by (simp add: eval_defs)

lemma plan_full_sync_run:
  "SyncTeamAssignments entApi listOrder ''plan'' False (entManager\<lparr>removeUsers := True\<rparr>) newClient =
     (Inr None,
      entManager\<lparr>removeUsers := True,
                 teamsCache := [(''acme'', [devs])],
                 membersCache := [''devs'' \<mapsto> [''alice'', ''bob'']],
                 ccNameCache := [''devs'' \<mapsto> ''[enterprise team] Devs''],
                 syncLog := [WouldEnsure 1, PreparedAssignments 1 2, WouldSync,
                             WouldAssign ''[enterprise team] Devs'' 2, FullSyncEnabled]\<rparr>,
      newClient\<lparr>trace := [EvEnterpriseTeams (Inr [devs]),
                           EvEnterpriseTeamMembers ''devs'' (Inr [\<lparr>Login = ''alice''\<rparr>, \<lparr>Login = ''bob''\<rparr>])]\<rparr>)"
  by (simp add: eval_defs)

lemma build_full_sync_run:
  "BuildTeamAssignments entApi listOrder (entManager\<lparr>removeUsers := True\<rparr>) newClient =
     (Inr (Some [(''[enterprise team] Devs'',
                  [\<lparr>Username = ''alice'', CostCenter = ''[enterprise team] Devs'',
                      Org = ''acme'', TeamSlug = ''devs''\<rparr>,
                   \<lparr>Username = ''bob'', CostCenter = ''[enterprise team] Devs'',
                      Org = ''acme'', TeamSlug = ''devs''\<rparr>])]),
      entManager\<lparr>removeUsers := True,
                 teamsCache := [(''acme'', [devs])],
                 membersCache := [''devs'' \<mapsto> [''alice'', ''bob'']],
                 ccNameCache := [''devs'' \<mapsto> ''[enterprise team] Devs'']\<rparr>,
      newClient\<lparr>trace := [EvEnterpriseTeams (Inr [devs]),
                           EvEnterpriseTeamMembers ''devs'' (Inr [\<lparr>Login = ''alice''\<rparr>, \<lparr>Login = ''bob''\<rparr>])]\<rparr>)"
  by (simp add: eval_defs)

lemma apply_run:
  "trace (snd (snd (SyncTeamAssignments entApi listOrder ''apply'' False entManager newClient))) =
     [EvEnterpriseTeams (Inr [devs]),
      EvEnterpriseTeamMembers ''devs'' (Inr [\<lparr>Login = ''alice''\<rparr>, \<lparr>Login = ''bob''\<rparr>]),
      EvGetCostCenter ''[enterprise team] Devs'' (Inr staleDetail),
      EvGetCostCenter ''[enterprise team] Devs'' (Inr staleDetail)]
   \<and> staleLog (fst (snd (SyncTeamAssignments entApi listOrder ''apply'' False entManager newClient))) =
     [(''[enterprise team] Devs'', [''dave''])]"
  by (simp add: eval_defs)

text \<open>
  Claim C4, as stated, fails in its second half ("performs every step except the
  mutating remote calls"): in this run the apply mode makes no mutating call at all, and
  still its steps are not those of the plan mode. The apply mode reads the current
  members of the cost center twice and reports dave as stale; the plan mode does neither.
\<close>

theorem plan_mode_skips_steps_counterexample:
  "filter mutating
     (trace (snd (snd (SyncTeamAssignments entApi listOrder ''apply'' False entManager newClient)))) = []
   \<and> trace (snd (snd (SyncTeamAssignments entApi listOrder ''apply'' False entManager newClient))) =
     [EvEnterpriseTeams (Inr [devs]),
      EvEnterpriseTeamMembers ''devs'' (Inr [\<lparr>Login = ''alice''\<rparr>, \<lparr>Login = ''bob''\<rparr>]),
      EvGetCostCenter ''[enterprise team] Devs'' (Inr staleDetail),
      EvGetCostCenter ''[enterprise team] Devs'' (Inr staleDetail)]
   \<and> staleLog (fst (snd (SyncTeamAssignments entApi listOrder ''apply'' False entManager newClient))) =
     [(''[enterprise team] Devs'', [''dave''])]
   \<and> trace (snd (snd (SyncTeamAssignments entApi listOrder ''plan'' False entManager newClient))) =
     [EvEnterpriseTeams (Inr [devs]),
      EvEnterpriseTeamMembers ''devs'' (Inr [\<lparr>Login = ''alice''\<rparr>, \<lparr>Login = ''bob''\<rparr>])]
   \<and> staleLog (fst (snd (SyncTeamAssignments entApi listOrder ''plan'' False entManager newClient))) = []"
  by (simp add: apply_run plan_run) (simp add: entManager_def testManager_def newClient_def)

text \<open>
  The amended claim C4 on a run in plan mode with full sync enabled, against a service
  where dave is a stale member: two listings, no removal, and the report of the counts.
\<close>

theorem plan_mode_only_fetches_witness:
  "SyncTeamAssignments entApi listOrder ''plan'' False (entManager\<lparr>removeUsers := True\<rparr>) newClient =
     (Inr None,
      entManager\<lparr>removeUsers := True,
                 teamsCache := [(''acme'', [devs])],
                 membersCache := [''devs'' \<mapsto> [''alice'', ''bob'']],
                 ccNameCache := [''devs'' \<mapsto> ''[enterprise team] Devs''],
                 syncLog := [WouldEnsure 1, PreparedAssignments 1 2, WouldSync,
                             WouldAssign ''[enterprise team] Devs'' 2, FullSyncEnabled]\<rparr>,
      newClient\<lparr>trace := [EvEnterpriseTeams (Inr [devs]),
                           EvEnterpriseTeamMembers ''devs'' (Inr [\<lparr>Login = ''alice''\<rparr>, \<lparr>Login = ''bob''\<rparr>])]\<rparr>)
   \<and> range_order listOrder
   \<and> (\<exists>evs. [EvEnterpriseTeams (Inr [devs]),
              EvEnterpriseTeamMembers ''devs'' (Inr [\<lparr>Login = ''alice''\<rparr>, \<lparr>Login = ''bob''\<rparr>])]
             = trace newClient @ evs
          \<and> (\<forall>e \<in> set evs. \<not> mutating e) \<and> (\<forall>e \<in> set evs. isTeamFetch e))
   \<and> (\<exists>ws. [WouldEnsure 1, PreparedAssignments 1 2, WouldSync,
             WouldAssign ''[enterprise team] Devs'' 2, FullSyncEnabled]
            = [WouldEnsure 1, PreparedAssignments 1 2, WouldSync] @ ws @ [FullSyncEnabled]
          \<and> mset ws = {#WouldAssign ''[enterprise team] Devs'' 2#})"
proof -
  have ro: "range_order listOrder"
    by (simp add: range_order_def listOrder_def)
  from plan_mode_only_fetches [OF plan_full_sync_run build_full_sync_run]
  have t: "\<exists>evs. [EvEnterpriseTeams (Inr [devs]),
              EvEnterpriseTeamMembers ''devs'' (Inr [\<lparr>Login = ''alice''\<rparr>, \<lparr>Login = ''bob''\<rparr>])]
             = trace newClient @ evs
          \<and> (\<forall>e \<in> set evs. \<not> mutating e) \<and> (\<forall>e \<in> set evs. isTeamFetch e)"
    and l: "\<exists>ws. [WouldEnsure 1, PreparedAssignments 1 2, WouldSync,
             WouldAssign ''[enterprise team] Devs'' 2, FullSyncEnabled]
            = [WouldEnsure 1, PreparedAssignments 1 2, WouldSync] @ ws @ [FullSyncEnabled]
          \<and> mset ws = {#WouldAssign ''[enterprise team] Devs'' 2#}"
    using ro by (simp_all add: newClient_def entManager_def testManager_def)
  with ro plan_full_sync_run show ?thesis by simp
qed
end
